theory Spec2Isabelle
  imports Complex_Main "HOL-Library.Word" "HOL-Library.Log_Nat"
    "HOL-Library.List_Lexorder" "HOL-Library.Char_ord"
begin

section \<open>Plan descriptions of the vtgate engine (go/vt/vtgate/engine/plan\_description.go)\<close>

text \<open>
  The development embeds the functions of \<^verbatim>\<open>plan_description.go\<close>: the statistics
  helpers \<^verbatim>\<open>average\<close> and \<^verbatim>\<open>median\<close>, the hand-written JSON writer
  \<^verbatim>\<open>MarshalJSON\<close> with \<^verbatim>\<open>marshalAdd\<close> and \<^verbatim>\<open>addMap\<close>, the builder
  \<^verbatim>\<open>PrimitiveToPlanDescription\<close> and the graph export \<^verbatim>\<open>addToGraph\<close>.
  A returned \<^verbatim>\<open>error\<close> and a run-time panic are two different outcomes of a Go call;
  both are values of the type \<open>failure\<close> here, and a function that can fail returns
  \<open>failure + 'a\<close>.
\<close>

subsection \<open>Go values\<close>

text \<open>Go's \<^verbatim>\<open>int\<close> on the 64-bit targets Vitess is built for: addition wraps around.\<close>

type_synonym int64 = "64 word"

datatype failure = EncodingError | RuntimePanic

definition and_then :: "failure + 'a \<Rightarrow> ('a \<Rightarrow> failure + 'b) \<Rightarrow> failure + 'b" where
  "and_then r f = (case r of Inl e \<Rightarrow> Inl e | Inr x \<Rightarrow> f x)"

text \<open>An index expression \<^verbatim>\<open>xs[i]\<close> panics outside \<^verbatim>\<open>0 <= i < len(xs)\<close>.\<close>

definition index :: "'a list \<Rightarrow> int \<Rightarrow> failure + 'a" where
  "index xs i = (if 0 \<le> i \<and> i < int (length xs) then Inr (xs ! nat i) else Inl RuntimePanic)"

text \<open>A slice expression \<^verbatim>\<open>s[n:]\<close> on a string panics when \<^verbatim>\<open>n > len(s)\<close>.\<close>

definition slice_from :: "string \<Rightarrow> nat \<Rightarrow> failure + string" where
  "slice_from s n = (if n \<le> length s then Inr (drop n s) else Inl RuntimePanic)"

subsection \<open>float64\<close>

text \<open>
  A \<^verbatim>\<open>float64\<close> is an IEEE 754 binary64 value. The code only converts integers to
  \<^verbatim>\<open>float64\<close> and divides two such values, so a value is a rational number, an
  infinity or NaN (the sign of zero is not tracked: no operation here produces a negative
  zero). \<open>round_float64\<close> rounds a rational to the nearest binary64 value, ties to even:
  53 significant bits, the exponent of the unit in the last place never below that of the
  subnormal numbers, and overflow to an infinity from \<open>2 ^ 1024\<close> on.
\<close>

datatype float64 = Fin rat | PosInf | NegInf | NaN

definition round_half_even :: "rat \<Rightarrow> int" where
  "round_half_even q =
     (let f = \<lfloor>q\<rfloor>; d = q - of_int f
      in if d < 1 / 2 then f else if 1 / 2 < d then f + 1 else if even f then f else f + 1)"

text \<open>The binary exponent \<open>e\<close> of a non-zero rational: \<open>2 ^ e \<le> \<bar>q\<bar> < 2 ^ (e + 1)\<close>.\<close>

definition binade :: "rat \<Rightarrow> int" where
  "binade q =
     (let (a, b) = quotient_of \<bar>q\<bar>; e0 = bitlen a - bitlen b
      in if 2 powi e0 \<le> \<bar>q\<bar> then e0 else e0 - 1)"

definition round_float64 :: "rat \<Rightarrow> float64" where
  "round_float64 q =
     (if q = 0 then Fin 0
      else let e = max (binade q) (- 1022);
               ulp = 2 powi (e - 52);
               r = of_int (round_half_even (\<bar>q\<bar> / ulp)) * ulp
           in if 2 ^ 1024 \<le> r then (if 0 < q then PosInf else NegInf)
              else Fin (if 0 < q then r else - r))"

text \<open>The conversion \<^verbatim>\<open>float64(i)\<close> of an integer.\<close>

definition float64_of_int :: "int \<Rightarrow> float64" where
  "float64_of_int i = round_float64 (of_int i)"

text \<open>The quotient \<^verbatim>\<open>x / y\<close> of two \<^verbatim>\<open>float64\<close> values; dividing by zero does not panic.\<close>

fun f64_div :: "float64 \<Rightarrow> float64 \<Rightarrow> float64" where
  "f64_div (Fin a) (Fin b) =
     (if b = 0 then (if a = 0 then NaN else if 0 < a then PosInf else NegInf)
      else round_float64 (a / b))"
| "f64_div NaN y = NaN"
| "f64_div x NaN = NaN"
| "f64_div (Fin a) y = Fin 0"
| "f64_div PosInf (Fin b) = (if b < 0 then NegInf else PosInf)"
| "f64_div NegInf (Fin b) = (if b < 0 then PosInf else NegInf)"
| "f64_div x y = NaN"

subsection \<open>The statistics helpers: average and median\<close>

text \<open>
  \<^verbatim>\<open>func average(nums []int) float64\<close>: the loop adds the samples into a Go
  \<^verbatim>\<open>int\<close>, which wraps around; both the total and the length are converted to
  \<^verbatim>\<open>float64\<close> before the division.
\<close>

definition average :: "int64 list \<Rightarrow> float64" where
  "average nums =
     (let total = foldl (\<lambda>total num. total + num) 0 nums
      in f64_div (float64_of_int (sint total)) (float64_of_int (int (length nums))))"

text \<open>
  \<^verbatim>\<open>func median(nums []int) float64\<close> on the value of the slice: \<^verbatim>\<open>sort.Ints\<close>
  orders the copy by the signed value. With no sample, \<^verbatim>\<open>n/2-1\<close> is \<open>-1\<close> and the
  index expression panics.
\<close>

definition median :: "int64 list \<Rightarrow> failure + float64" where
  "median nums =
     (let sortedNums = sort_key sint nums;
          n = int (length sortedNums)
      in if n mod 2 = 0
         then and_then (index sortedNums (n div 2 - 1)) (\<lambda>mid1.
              and_then (index sortedNums (n div 2)) (\<lambda>mid2.
              Inr (f64_div (float64_of_int (sint (mid1 + mid2))) (Fin 2))))
         else and_then (index sortedNums (n div 2)) (\<lambda>mid.
              Inr (float64_of_int (sint mid))))"

text \<open>
  The same function on a store, to speak about what it writes. A slice is a window
  (offset and length) into an array of the store; \<^verbatim>\<open>make_slice\<close> allocates a fresh array
  of zeros, \<^verbatim>\<open>copy\<close> writes the first \<^verbatim>\<open>min(len(dst), len(src))\<close> elements of the
  source into the destination, and \<^verbatim>\<open>sort.Ints\<close> sorts the window in place.
\<close>

record memory =
  arrays :: "nat \<Rightarrow> int64 list"
  next_free :: nat

record slice =
  sl_array :: nat
  sl_off :: nat
  sl_len :: nat

definition contents :: "memory \<Rightarrow> slice \<Rightarrow> int64 list" where
  "contents M s = take (sl_len s) (drop (sl_off s) (arrays M (sl_array s)))"

definition make_slice :: "memory \<Rightarrow> nat \<Rightarrow> slice \<times> memory" where
  "make_slice M n =
     (\<lparr>sl_array = next_free M, sl_off = 0, sl_len = n\<rparr>,
      M\<lparr>arrays := (arrays M)(next_free M := replicate n 0), next_free := Suc (next_free M)\<rparr>)"

definition overwrite :: "memory \<Rightarrow> slice \<Rightarrow> int64 list \<Rightarrow> memory" where
  "overwrite M s xs =
     (let a = arrays M (sl_array s); ys = take (sl_len s) xs
      in M\<lparr>arrays := (arrays M)(sl_array s :=
            take (sl_off s) a @ ys @ drop (sl_off s + length ys) a)\<rparr>)"

definition copy :: "memory \<Rightarrow> slice \<Rightarrow> slice \<Rightarrow> memory" where
  "copy M dst src = overwrite M dst (take (min (sl_len dst) (sl_len src)) (contents M src))"

definition sort_Ints :: "memory \<Rightarrow> slice \<Rightarrow> memory" where
  "sort_Ints M s = overwrite M s (sort_key sint (contents M s))"

definition median_mem :: "memory \<Rightarrow> slice \<Rightarrow> (failure + float64) \<times> memory" where
  "median_mem M nums =
     (let (sortedNums, M1) = make_slice M (sl_len nums);
          M2 = copy M1 sortedNums nums;
          M3 = sort_Ints M2 sortedNums;
          n = int (sl_len sortedNums)
      in (if n mod 2 = 0
          then and_then (index (contents M3 sortedNums) (n div 2 - 1)) (\<lambda>mid1.
               and_then (index (contents M3 sortedNums) (n div 2)) (\<lambda>mid2.
               Inr (f64_div (float64_of_int (sint (mid1 + mid2))) (Fin 2))))
          else and_then (index (contents M3 sortedNums) (n div 2)) (\<lambda>mid.
               Inr (float64_of_int (sint mid))),
          M3))"

text \<open>
  What the specification says the two functions compute, on the mathematical integers:
  the middle element of the sorted samples, or the mean of the two middle ones, and the
  sum divided by the count.
\<close>

definition spec_median :: "int list \<Rightarrow> rat" where
  "spec_median xs =
     (let s = sort xs; n = length s
      in if even n then (of_int (s ! (n div 2 - 1)) + of_int (s ! (n div 2))) / 2
         else of_int (s ! (n div 2)))"

definition spec_mean :: "int list \<Rightarrow> rat" where
  "spec_mean xs = of_int (sum_list xs) / of_nat (length xs)"

subsection \<open>Dynamic values and maps\<close>

text \<open>
  Modelled from the spec: \<^verbatim>\<open>vindexes.Keyspace\<close>, \<^verbatim>\<open>key.Destination\<close> and
  \<^verbatim>\<open>topodatapb.TabletType\<close> are declared outside this file. A keyspace is a value
  that serialises on its own; a destination is known through \<^verbatim>\<open>String()\<close>, its
  canonical textual form; a tablet type is an enumeration number whose value \<open>0\<close> is
  the "unknown" sentinel.
\<close>

datatype Keyspace = MkKeyspace (Name: string) (Sharded: bool)

datatype Destination = MkDestination (String: string)

type_synonym TabletType = "32 word"

definition TabletType_UNKNOWN :: TabletType where
  "TabletType_UNKNOWN = 0"

text \<open>
  A value of the interface type \<^verbatim>\<open>any\<close> carries its dynamic type: \<^verbatim>\<open>nil\<close>, a
  \<^verbatim>\<open>string\<close>, an \<^verbatim>\<open>int\<close>, a \<^verbatim>\<open>bool\<close>, a \<^verbatim>\<open>float64\<close>, a
  \<^verbatim>\<open>[]string\<close>, a \<^verbatim>\<open>*vindexes.Keyspace\<close>, or a value of some other type
  (\<open>AOther\<close>, told apart by a tag). Two interface values are equal in Go when their
  dynamic types and their values are equal, which is the equality of this datatype.
\<close>

datatype any =
    ANil
  | AString string
  | AInt int64
  | ABool bool
  | AFloat64 float64
  | AStrings "string list"
  | AKeyspace Keyspace
  | AOther nat

text \<open>
  A \<^verbatim>\<open>map[string]any\<close> is a list of entries with distinct keys, in the order in which
  a \<^verbatim>\<open>range\<close> loop visits them (an order Go leaves open); the \<^verbatim>\<open>nil\<close> map is
  \<open>None\<close>. Reading a missing key gives \<^verbatim>\<open>nil\<close>; an assignment replaces the entry of
  the key or adds one.
\<close>

type_synonym gomap = "(string \<times> any) list"

definition entries :: "gomap option \<Rightarrow> gomap" where
  "entries m = (case m of None \<Rightarrow> [] | Some kvs \<Rightarrow> kvs)"

definition lookup :: "gomap option \<Rightarrow> string \<Rightarrow> any" where
  "lookup m k = (case map_of (entries m) k of None \<Rightarrow> ANil | Some v \<Rightarrow> v)"


text \<open>
  A slice that may be \<^verbatim>\<open>nil\<close>: \<^verbatim>\<open>len\<close>, \<^verbatim>\<open>range\<close> and \<^verbatim>\<open>append\<close> read the
  \<^verbatim>\<open>nil\<close> slice as the empty one.
\<close>

definition elems :: "'a list option \<Rightarrow> 'a list" where
  "elems s = (case s of None \<Rightarrow> [] | Some xs \<Rightarrow> xs)"

subsection \<open>The libraries the code calls\<close>

text \<open>
  The standard library is a parameter of the model: \<open>json_Encode\<close> is what
  \<^verbatim>\<open>json.Encoder.Encode\<close> (with HTML escaping off) writes for a value, or \<open>None\<close>
  when it returns an error; \<open>json_compact\<close> is the compaction \<^verbatim>\<open>encoding/json\<close>
  applies to the bytes a \<^verbatim>\<open>json.Marshaler\<close> returns, or \<open>None\<close> when they are not
  valid JSON; \<open>TabletType_String\<close> is the \<^verbatim>\<open>String()\<close> method of the tablet type;
  \<open>fmt_Sprint\<close> is the \<^verbatim>\<open>%v\<close> format of \<^verbatim>\<open>fmt\<close>.
\<close>

record env =
  json_Encode :: "any \<Rightarrow> string option"
  json_compact :: "string \<Rightarrow> string option"
  TabletType_String :: "TabletType \<Rightarrow> string"
  fmt_Sprint :: "any \<Rightarrow> string"

definition Encode :: "env \<Rightarrow> any \<Rightarrow> failure + string" where
  "Encode X obj = (case json_Encode X obj of None \<Rightarrow> Inl EncodingError | Some out \<Rightarrow> Inr out)"

definition dq :: string where
  "dq = [CHR 0x22]"

definition newline :: string where
  "newline = [CHR 0x0A]"

fun join :: "string \<Rightarrow> string list \<Rightarrow> string" where
  "join sep [] = []"
| "join sep [x] = x"
| "join sep (x # y # ys) = x @ sep @ join sep (y # ys)"

text \<open>
  What \<^verbatim>\<open>Encode\<close> writes for a non-empty slice of \<^verbatim>\<open>json.Marshaler\<close>s, given the
  compacted output of each element: a JSON array, and the newline that ends every
  \<^verbatim>\<open>Encode\<close>.
\<close>

definition encode_Marshalers :: "failure + string list \<Rightarrow> failure + string" where
  "encode_Marshalers r =
     (case r of Inl err \<Rightarrow> Inl err
      | Inr cs \<Rightarrow> Inr (''['' @ join '','' cs @ '']'' @ newline))"

subsection \<open>PrimitiveDescription and its JSON writer\<close>

datatype PrimitiveDescription = PrimitiveDescription
  (OperatorType: string)
  (Variant: string)
  (Keyspace: "Keyspace option")
  (TargetDestination: "Destination option")
  (TargetTabletType: TabletType)
  (Other: "gomap option")
  (InputName: string)
  (Inputs: "PrimitiveDescription list option")
  (Stats: "int64 list")

text \<open>
  \<^verbatim>\<open>marshalAdd(prepend, buf, name, obj)\<close> writes \<^verbatim>\<open>prepend\<close>, the name between
  double quotes and a colon, and then lets a JSON encoder write \<^verbatim>\<open>obj\<close>. The encoder
  is the argument \<open>enc\<close>: it gives the text written, or fails. When it fails the caller
  drops the buffer, so only the failure is returned.
\<close>

definition marshalAdd ::
    "('o \<Rightarrow> failure + string) \<Rightarrow> string \<Rightarrow> string \<Rightarrow> string \<Rightarrow> 'o \<Rightarrow> failure + string" where
  "marshalAdd enc prepend buf name obj =
     (let buf = buf @ prepend @ dq @ name @ dq @ '':''
      in case enc obj of Inl err \<Rightarrow> Inl err | Inr out \<Rightarrow> Inr (buf @ out))"

text \<open>
  The test \<^verbatim>\<open>v == "" || v == nil || v == 0 || v == false\<close> of \<^verbatim>\<open>addMap\<close>: the
  constants have the types \<^verbatim>\<open>string\<close>, \<^verbatim>\<open>int\<close> and \<^verbatim>\<open>bool\<close>.
\<close>

definition omitted :: "any \<Rightarrow> bool" where
  "omitted v \<longleftrightarrow> v = AString '''' \<or> v = ANil \<or> v = AInt 0 \<or> v = ABool False"

fun addMap_loop :: "env \<Rightarrow> gomap option \<Rightarrow> string \<Rightarrow> string list \<Rightarrow> failure + string" where
  "addMap_loop X input buf [] = Inr buf"
| "addMap_loop X input buf (k # mk) =
     (let v = lookup input k
      in case marshalAdd (Encode X) '','' buf k v of
           Inl err \<Rightarrow> Inl err
         | Inr buf \<Rightarrow> addMap_loop X input buf mk)"

definition addMap :: "env \<Rightarrow> gomap option \<Rightarrow> string \<Rightarrow> failure + string" where
  "addMap X input buf =
     (let mk = map fst (filter (\<lambda>(k, v). \<not> omitted v) (entries input));
          mk = sort mk
      in addMap_loop X input buf mk)"

lemma size_elems_Inputs: "size_list size (elems (Inputs pd)) < size pd"
  by (cases pd) (simp add: elems_def split: option.split)

lemma and_then_cong [fundef_cong]:
  "r = r' \<Longrightarrow> (\<And>x. r' = Inr x \<Longrightarrow> f x = f' x) \<Longrightarrow> and_then r f = and_then r' f'"
  by (simp add: and_then_def split: sum.split)

lemma marshalAdd_cong [fundef_cong]:
  "obj = obj' \<Longrightarrow> enc obj' = enc' obj' \<Longrightarrow> prepend = prepend' \<Longrightarrow> buf = buf' \<Longrightarrow> name = name'
     \<Longrightarrow> marshalAdd enc prepend buf name obj = marshalAdd enc' prepend' buf' name' obj'"
  by (simp add: marshalAdd_def)

text \<open>
  \<^verbatim>\<open>func (pd PrimitiveDescription) MarshalJSON() ([]byte, error)\<close>. The buffer and
  \<^verbatim>\<open>prepend\<close> are passed along; every \<^verbatim>\<open>if err != nil { return nil, err }\<close> is
  an \<open>and_then\<close>. \<^verbatim>\<open>marshalAdd\<close> of \<^verbatim>\<open>pd.Inputs\<close> makes the encoder call
  \<^verbatim>\<open>MarshalJSON\<close> on each child in turn and compact what it returns
  (\<open>MarshalJSON_elems\<close>); a panic of a child is not caught.
\<close>

function MarshalJSON :: "env \<Rightarrow> PrimitiveDescription \<Rightarrow> failure + string"
  and MarshalJSON_elems :: "env \<Rightarrow> PrimitiveDescription list \<Rightarrow> failure + string list" where
  "MarshalJSON X pd =
     (let buf = ''{''; prepend = '''' in
      and_then
        (if InputName pd \<noteq> ''''
         then and_then (marshalAdd (Encode X) prepend buf ''InputName'' (AString (InputName pd)))
                (\<lambda>buf. Inr (buf, '',''))
         else Inr (buf, prepend)) (\<lambda>(buf, prepend).
      and_then (marshalAdd (Encode X) prepend buf ''OperatorType'' (AString (OperatorType pd))) (\<lambda>buf.
      let prepend = '','' in
      and_then
        (if Variant pd \<noteq> ''''
         then marshalAdd (Encode X) prepend buf ''Variant'' (AString (Variant pd))
         else Inr buf) (\<lambda>buf.
      and_then
        (case Keyspace pd of
           Some ks \<Rightarrow> marshalAdd (Encode X) prepend buf ''Keyspace'' (AKeyspace ks)
         | None \<Rightarrow> Inr buf) (\<lambda>buf.
      and_then
        (case TargetDestination pd of
           Some d \<Rightarrow>
             (let s = String d in
              and_then (slice_from s 11) (\<lambda>dest.
              marshalAdd (Encode X) prepend buf ''TargetDestination'' (AString dest)))
         | None \<Rightarrow> Inr buf) (\<lambda>buf.
      and_then
        (if TargetTabletType pd \<noteq> TabletType_UNKNOWN
         then marshalAdd (Encode X) prepend buf ''TargetTabletType''
                (AString (TabletType_String X (TargetTabletType pd)))
         else Inr buf) (\<lambda>buf.
      and_then
        (if 0 < length (Stats pd)
         then and_then (marshalAdd (Encode X) prepend buf ''NoOfCalls''
                          (AInt (of_nat (length (Stats pd))))) (\<lambda>buf.
              and_then (marshalAdd (Encode X) prepend buf ''AvgNumberOfRows''
                          (AFloat64 (average (Stats pd)))) (\<lambda>buf.
              and_then (median (Stats pd)) (\<lambda>m.
              marshalAdd (Encode X) prepend buf ''MedianNumberOfRows'' (AFloat64 m))))
         else Inr buf) (\<lambda>buf.
      and_then (addMap X (Other pd) buf) (\<lambda>buf.
      and_then
        (if 0 < length (elems (Inputs pd))
         then marshalAdd (\<lambda>ds. encode_Marshalers (MarshalJSON_elems X ds)) prepend buf
                ''Inputs'' (elems (Inputs pd))
         else Inr buf) (\<lambda>buf.
      Inr (buf @ ''}'')))))))))))"
| "MarshalJSON_elems X [] = Inr []"
| "MarshalJSON_elems X (d # ds) =
     (case MarshalJSON X d of
        Inl err \<Rightarrow> Inl err
      | Inr b \<Rightarrow>
          (case json_compact X b of
             None \<Rightarrow> Inl EncodingError
           | Some c \<Rightarrow>
               (case MarshalJSON_elems X ds of
                  Inl err \<Rightarrow> Inl err
                | Inr cs \<Rightarrow> Inr (c # cs))))"
  by pat_completeness auto
termination
  by (relation "measure (case_sum (\<lambda>(X, pd). size pd) (\<lambda>(X, ds). size_list size ds))")
     (simp_all add: size_elems_Inputs)

declare MarshalJSON.simps [simp del]

subsection \<open>An object as a list of fields\<close>

text \<open>
  The specification describes the output as a sequence of fields. A field is a name with
  the value handed to the encoder: a plain value or the list of children. \<open>write_object\<close>
  writes such a sequence the way the code writes every field: the first one without a
  comma, the others after one, between braces, and no output once a value fails to
  encode.
\<close>

datatype field = Plain any | Children "PrimitiveDescription list"

definition encode_field :: "env \<Rightarrow> field \<Rightarrow> failure + string" where
  "encode_field X f =
     (case f of Plain v \<Rightarrow> Encode X v
      | Children ds \<Rightarrow> encode_Marshalers (MarshalJSON_elems X ds))"

fun write_fields :: "env \<Rightarrow> string \<Rightarrow> string \<Rightarrow> (string \<times> field) list \<Rightarrow> failure + string" where
  "write_fields X prepend buf [] = Inr buf"
| "write_fields X prepend buf ((name, f) # fs) =
     (case marshalAdd (encode_field X) prepend buf name f of
        Inl err \<Rightarrow> Inl err
      | Inr buf \<Rightarrow> write_fields X '','' buf fs)"

definition write_object :: "env \<Rightarrow> (string \<times> field) list \<Rightarrow> failure + string" where
  "write_object X fs =
     (case write_fields X '''' ''{'' fs of Inl err \<Rightarrow> Inl err | Inr buf \<Rightarrow> Inr (buf @ ''}''))"

text \<open>The fields of the specification, in its order (section 4.3, items 1 to 9).\<close>

definition head_fields :: "env \<Rightarrow> PrimitiveDescription \<Rightarrow> (string \<times> field) list" where
  "head_fields X pd =
     (if InputName pd \<noteq> '''' then [(''InputName'', Plain (AString (InputName pd)))] else [])
     @ [(''OperatorType'', Plain (AString (OperatorType pd)))]
     @ (if Variant pd \<noteq> '''' then [(''Variant'', Plain (AString (Variant pd)))] else [])
     @ (case Keyspace pd of Some ks \<Rightarrow> [(''Keyspace'', Plain (AKeyspace ks))] | None \<Rightarrow> [])
     @ (case TargetDestination pd of
          Some d \<Rightarrow> [(''TargetDestination'', Plain (AString (drop 11 (String d))))]
        | None \<Rightarrow> [])
     @ (if TargetTabletType pd \<noteq> TabletType_UNKNOWN
        then [(''TargetTabletType'', Plain (AString (TabletType_String X (TargetTabletType pd))))]
        else [])"

definition stats_fields :: "PrimitiveDescription \<Rightarrow> (string \<times> field) list" where
  "stats_fields pd =
     (if Stats pd \<noteq> []
      then [(''NoOfCalls'', Plain (AInt (of_nat (length (Stats pd))))),
            (''AvgNumberOfRows'', Plain (AFloat64 (average (Stats pd)))),
            (''MedianNumberOfRows'', Plain (AFloat64 (projr (median (Stats pd)))))]
      else [])"

definition extension_fields :: "gomap option \<Rightarrow> (string \<times> field) list" where
  "extension_fields other =
     map (\<lambda>k. (k, Plain (lookup other k)))
       (sort (filter (\<lambda>k. \<not> omitted (lookup other k)) (map fst (entries other))))"

definition inputs_fields :: "PrimitiveDescription \<Rightarrow> (string \<times> field) list" where
  "inputs_fields pd =
     (if elems (Inputs pd) \<noteq> [] then [(''Inputs'', Children (elems (Inputs pd)))] else [])"

text \<open>The fields written before and after the target destination.\<close>

definition fields_before_destination :: "env \<Rightarrow> PrimitiveDescription \<Rightarrow> (string \<times> field) list" where
  "fields_before_destination X pd =
     (if InputName pd \<noteq> '''' then [(''InputName'', Plain (AString (InputName pd)))] else [])
     @ [(''OperatorType'', Plain (AString (OperatorType pd)))]
     @ (if Variant pd \<noteq> '''' then [(''Variant'', Plain (AString (Variant pd)))] else [])
     @ (case Keyspace pd of Some ks \<Rightarrow> [(''Keyspace'', Plain (AKeyspace ks))] | None \<Rightarrow> [])"

definition fields_after_destination :: "env \<Rightarrow> PrimitiveDescription \<Rightarrow> (string \<times> field) list" where
  "fields_after_destination X pd =
     (if TargetTabletType pd \<noteq> TabletType_UNKNOWN
      then [(''TargetTabletType'', Plain (AString (TabletType_String X (TargetTabletType pd))))]
      else [])
     @ stats_fields pd @ extension_fields (Other pd) @ inputs_fields pd"

subsection \<open>The builder\<close>



definition set_Stats :: "int64 list \<Rightarrow> PrimitiveDescription \<Rightarrow> PrimitiveDescription" where
  "set_Stats st pd =
     PrimitiveDescription (OperatorType pd) (Variant pd) (Keyspace pd) (TargetDestination pd)
       (TargetTabletType pd) (Other pd) (InputName pd) (Inputs pd) st"

definition set_InputName :: "string \<Rightarrow> PrimitiveDescription \<Rightarrow> PrimitiveDescription" where
  "set_InputName s pd =
     PrimitiveDescription (OperatorType pd) (Variant pd) (Keyspace pd) (TargetDestination pd)
       (TargetTabletType pd) (Other pd) s (Inputs pd) (Stats pd)"

definition set_Other :: "gomap option \<Rightarrow> PrimitiveDescription \<Rightarrow> PrimitiveDescription" where
  "set_Other m pd =
     PrimitiveDescription (OperatorType pd) (Variant pd) (Keyspace pd) (TargetDestination pd)
       (TargetTabletType pd) m (InputName pd) (Inputs pd) (Stats pd)"

definition set_Inputs ::
    "PrimitiveDescription list option \<Rightarrow> PrimitiveDescription \<Rightarrow> PrimitiveDescription" where
  "set_Inputs ins pd =
     PrimitiveDescription (OperatorType pd) (Variant pd) (Keyspace pd) (TargetDestination pd)
       (TargetTabletType pd) (Other pd) (InputName pd) ins (Stats pd)"



subsection \<open>The graph export\<close>

text \<open>
  Modelled from the spec: the package \<^verbatim>\<open>graphviz\<close> is outside this file. A graph is
  its nodes and edges; a node is its label and the calls \<^verbatim>\<open>AddTooltip\<close> and
  \<^verbatim>\<open>AddAttribute\<close> made on it, in order; a \<^verbatim>\<open>*graphviz.Node\<close> is the position of
  the node in the graph.
\<close>

datatype node_call = AddTooltip string | AddAttribute string

record Node =
  node_name :: string
  node_calls :: "node_call list"

record Graph =
  graph_nodes :: "Node list"
  graph_edges :: "(nat \<times> nat) list"

definition AddNode :: "Graph \<Rightarrow> string \<Rightarrow> nat \<times> Graph" where
  "AddNode g name =
     (length (graph_nodes g),
      g\<lparr>graph_nodes := graph_nodes g @ [\<lparr>node_name = name, node_calls = []\<rparr>]\<rparr>)"

definition call_Node :: "Graph \<Rightarrow> nat \<Rightarrow> node_call \<Rightarrow> Graph" where
  "call_Node g n c =
     g\<lparr>graph_nodes := (graph_nodes g)
          [n := (graph_nodes g ! n)\<lparr>node_calls := node_calls (graph_nodes g ! n) @ [c]\<rparr>]\<rparr>"

definition AddEdge :: "Graph \<Rightarrow> nat \<Rightarrow> nat \<Rightarrow> Graph" where
  "AddEdge g a b = g\<lparr>graph_edges := graph_edges g @ [(a, b)]\<rparr>"

text \<open>
  The body of \<^verbatim>\<open>for k, v := range pd.Other\<close> in \<^verbatim>\<open>addToGraph\<close>: the calls it makes
  on the node for one entry. \<^verbatim>\<open>fmt.Sprintf("%s:%v", k, v)\<close> is the key, a colon and
  the \<^verbatim>\<open>%v\<close> format of the value.
\<close>

definition scan_entry :: "env \<Rightarrow> string \<Rightarrow> any \<Rightarrow> node_call list" where
  "scan_entry X k v =
     (if k = ''Query'' then [AddTooltip (fmt_Sprint X v)]
      else if k = ''FieldQuery'' then []
      else (case v of
              AStrings strs \<Rightarrow> AddAttribute k # map AddAttribute strs
            | _ \<Rightarrow> [AddAttribute (k @ '':'' @ fmt_Sprint X v)]))"

function addToGraph :: "env \<Rightarrow> PrimitiveDescription \<Rightarrow> Graph \<Rightarrow> failure + (nat \<times> Graph)"
  and addToGraph_inputs ::
    "env \<Rightarrow> PrimitiveDescription list \<Rightarrow> nat list \<Rightarrow> Graph \<Rightarrow> failure + (nat list \<times> Graph)" where
  "addToGraph X pd g =
     (case addToGraph_inputs X (elems (Inputs pd)) [] g of
        Inl err \<Rightarrow> Inl err
      | Inr (nodes, g) \<Rightarrow>
          (let name = OperatorType pd @ '':'' @ Variant pd;
               name = (if Variant pd = '''' then OperatorType pd else name);
               (this, g) = AddNode g name;
               g = foldl (\<lambda>g (k, v). foldl (\<lambda>g c. call_Node g this c) g (scan_entry X k v))
                     g (entries (Other pd));
               g = foldl (\<lambda>g n. AddEdge g this n) g nodes
           in Inr (this, g)))"
| "addToGraph_inputs X [] nodes g = Inr (nodes, g)"
| "addToGraph_inputs X (input # rest) nodes g =
     (case addToGraph X input g of
        Inl err \<Rightarrow> Inl err
      | Inr (n, g) \<Rightarrow> addToGraph_inputs X rest (nodes @ [n]) g)"
  by pat_completeness auto
termination
  by (relation "measure (case_sum (\<lambda>(X, pd, g). size pd) (\<lambda>(X, ds, ns, g). size_list size ds))")
     (simp_all add: size_elems_Inputs)

declare addToGraph.simps [simp del]

subsection \<open>A concrete stand-in for the libraries\<close>

text \<open>
  To evaluate the functions on examples the parameters need values. \<open>demo\<close> is a small
  encoder in the manner of \<^verbatim>\<open>encoding/json\<close> and \<^verbatim>\<open>fmt\<close>: numbers in decimal,
  strings between double quotes (without escapes), \<^verbatim>\<open>NaN\<close> and the infinities refused,
  the compaction dropping the newlines. The theorems about the code hold for every
  \<open>env\<close>; \<open>demo\<close> only appears in the examples.
\<close>

fun decimal :: "nat \<Rightarrow> string" where
  "decimal n =
     (if n < 10 then [''0123456789'' ! n]
      else decimal (n div 10) @ [''0123456789'' ! (n mod 10)])"

declare decimal.simps [simp del]

definition show_int :: "int \<Rightarrow> string" where
  "show_int i = (if i < 0 then ''-'' @ decimal (nat (- i)) else decimal (nat i))"

fun frac_digits :: "nat \<Rightarrow> rat \<Rightarrow> string" where
  "frac_digits n r =
     (if n = 0 \<or> r = 0 then []
      else let d = \<lfloor>r * 10\<rfloor>
           in (''0123456789'' ! nat d) # frac_digits (n - 1) (r * 10 - of_int d))"

declare frac_digits.simps [simp del]

definition show_float :: "float64 \<Rightarrow> string option" where
  "show_float x =
     (case x of
        Fin q \<Rightarrow>
          (let i = \<lfloor>\<bar>q\<bar>\<rfloor>; r = \<bar>q\<bar> - of_int i
           in Some ((if q < 0 then ''-'' else []) @ decimal (nat i)
                    @ (if r = 0 then [] else ''.'' @ frac_digits 17 r)))
      | _ \<Rightarrow> None)"

definition quoted :: "string \<Rightarrow> string" where
  "quoted s = dq @ s @ dq"

definition show_bool :: "bool \<Rightarrow> string" where
  "show_bool b = (if b then ''true'' else ''false'')"

definition demo_json :: "any \<Rightarrow> string option" where
  "demo_json v =
     (case v of
        ANil \<Rightarrow> Some ''null''
      | AString s \<Rightarrow> Some (quoted s)
      | AInt i \<Rightarrow> Some (show_int (sint i))
      | ABool b \<Rightarrow> Some (show_bool b)
      | AFloat64 x \<Rightarrow> show_float x
      | AStrings ss \<Rightarrow> Some (''['' @ join '','' (map quoted ss) @ '']'')
      | AKeyspace ks \<Rightarrow>
          Some (''{'' @ quoted ''Name'' @ '':'' @ quoted (Name ks) @ '',''
                @ quoted ''Sharded'' @ '':'' @ show_bool (Sharded ks) @ ''}'')
      | AOther n \<Rightarrow> None)"

definition demo_Sprint :: "any \<Rightarrow> string" where
  "demo_Sprint v =
     (case v of
        ANil \<Rightarrow> ''<nil>''
      | AString s \<Rightarrow> s
      | AInt i \<Rightarrow> show_int (sint i)
      | ABool b \<Rightarrow> show_bool b
      | AFloat64 x \<Rightarrow> (case show_float x of Some s \<Rightarrow> s | None \<Rightarrow> ''NaN'')
      | AStrings ss \<Rightarrow> ''['' @ join '' '' ss @ '']''
      | AKeyspace ks \<Rightarrow> Name ks
      | AOther n \<Rightarrow> ''?'')"

definition demo_TabletType_String :: "TabletType \<Rightarrow> string" where
  "demo_TabletType_String t =
     (if t = 1 then ''PRIMARY'' else if t = 2 then ''REPLICA'' else if t = 3 then ''RDONLY''
      else decimal (unat t))"

definition demo :: env where
  "demo =
     \<lparr>json_Encode = (\<lambda>v. map_option (\<lambda>s. s @ newline) (demo_json v)),
      json_compact = (\<lambda>b. Some (filter (\<lambda>c. c \<noteq> CHR 0x0A) b)),
      TabletType_String = demo_TabletType_String,
      fmt_Sprint = demo_Sprint\<rparr>"

text \<open>Two descriptions for the examples: a leaf, and a route with the leaf as its child.\<close>

definition ex_leaf :: PrimitiveDescription where
  "ex_leaf = PrimitiveDescription ''Leaf'' '''' None None 0 None '''' (Some []) []"

definition ex_route :: PrimitiveDescription where
  "ex_route =
     PrimitiveDescription ''Route'' ''Scatter'' (Some (MkKeyspace ''ks'' True))
       (Some (MkDestination ''DestinationAllShards()'')) 2
       (Some [(''b'', AInt 1), (''a'', AInt 2)]) ''Left'' (Some [ex_leaf]) [1, 1, 1]"



definition ex_short_destination :: PrimitiveDescription where
  "ex_short_destination =
     PrimitiveDescription ''Route'' '''' None (Some (MkDestination ''Short'')) 0 None '''' None []"

definition ex_destination :: PrimitiveDescription where
  "ex_destination =
     PrimitiveDescription ''Route'' '''' None (Some (MkDestination ''DestinationShard(-80)'')) 0
       None '''' None []"





text \<open>Descriptions for the graph export, and the empty graph of \<^verbatim>\<open>graphviz.New()\<close>.\<close>

definition ex_graph_query :: PrimitiveDescription where
  "ex_graph_query =
     PrimitiveDescription ''Route'' ''Scatter'' None None 0
       (Some [(''Query'', AString ''SELECT 1''), (''FieldQuery'', AString ''SELECT 1 FROM t''),
              (''Table'', AString ''t'')])
       '''' (Some []) []"

definition ex_graph_columns :: PrimitiveDescription where
  "ex_graph_columns =
     PrimitiveDescription ''Route'' '''' None None 0 (Some [(''Cols'', AStrings [''a'', ''b''])])
       '''' (Some []) []"

definition graphviz_New :: Graph where
  "graphviz_New = \<lparr>graph_nodes = [], graph_edges = []\<rparr>"





section \<open>Properties\<close>

subsection \<open>Rounding to float64 is exact on small integers\<close>

lemma round_half_even_int: "round_half_even (of_int k) = k"
  by (simp add: round_half_even_def)

lemma binade_lower:
  assumes "q \<noteq> 0"
  shows "2 powi (binade q) \<le> \<bar>q\<bar>"
proof -
  obtain a b where ab: "quotient_of \<bar>q\<bar> = (a, b)" by (cases "quotient_of \<bar>q\<bar>")
  have b: "0 < b" using ab quotient_of_denom_pos by blast
  have q: "\<bar>q\<bar> = of_int a / of_int b" using ab quotient_of_div by blast
  have a: "0 < a"
  proof (rule ccontr)
    assume "\<not> 0 < a"
    then have "of_int a / (of_int b :: rat) \<le> 0" using b by (simp add: divide_le_0_iff)
    with q assms show False by simp
  qed
  have ba: "1 \<le> bitlen a" using a by (auto simp: bitlen_alt_def)
  have "(2::int) ^ nat (bitlen a - 1) \<le> a" using bitlen_bounds [OF a] by simp
  then have "(of_int ((2::int) ^ nat (bitlen a - 1)) :: rat) \<le> of_int a"
    by (simp only: of_int_le_iff)
  then have la: "(2::rat) powi (bitlen a - 1) \<le> of_int a"
    using ba by (simp add: power_int_def)
  have "b < (2::int) ^ nat (bitlen b)" using bitlen_bounds [OF b] by simp
  then have "(of_int b :: rat) < of_int ((2::int) ^ nat (bitlen b))"
    by (simp only: of_int_less_iff)
  then have ub: "of_int b < (2::rat) powi (bitlen b)"
    using bitlen_nonneg [of b] by (simp add: power_int_def)
  have split: "(2::rat) powi (bitlen a - 1) = 2 powi (bitlen a - bitlen b - 1) * 2 powi (bitlen b)"
    by (simp add: power_int_add [symmetric])
  have pos: "(0::rat) < 2 powi (bitlen a - bitlen b - 1)" by simp
  have "2 powi (bitlen a - bitlen b - 1) * of_int b
          \<le> (2::rat) powi (bitlen a - bitlen b - 1) * 2 powi (bitlen b)"
    using ub pos by (simp add: less_imp_le)
  also have "\<dots> \<le> of_int a" using la split by simp
  finally have "(2::rat) powi (bitlen a - bitlen b - 1) \<le> of_int a / of_int b"
    using b by (simp add: pos_le_divide_eq)
  then show ?thesis using ab q by (simp add: binade_def Let_def)
qed

lemma round_float64_exact:
  assumes m: "\<bar>m\<bar> < 2 ^ 53" and k: "- 1074 \<le> k" "k \<le> 971"
  shows "round_float64 (of_int m * 2 powi k) = Fin (of_int m * 2 powi k)"
proof (cases "m = 0")
  case True
  then show ?thesis by (simp add: round_float64_def)
next
  case False
  define q :: rat where "q = of_int m * 2 powi k"
  have q0: "q \<noteq> 0" using False by (simp add: q_def)
  have absq: "\<bar>q\<bar> = of_int \<bar>m\<bar> * 2 powi k"
    by (simp add: q_def abs_mult)
  have "(of_int \<bar>m\<bar> :: rat) < of_int (2 ^ 53)" using m by (simp only: of_int_less_iff)
  then have "\<bar>q\<bar> < 2 powi 53 * 2 powi k"
    unfolding absq by simp
  moreover have "(2::rat) powi (53 + k) = 2 powi 53 * 2 powi k"
    using power_int_add [of "2::rat" 53 k] by simp
  ultimately have lt: "\<bar>q\<bar> < 2 powi (53 + k)"
    by (simp only:)
  have "(2::rat) powi (binade q) < 2 powi (53 + k)"
    using binade_lower [OF q0] lt by simp
  then have b: "binade q \<le> 52 + k"
    using power_int_increasing [of "53 + k" "binade q" "2::rat"]
    by (cases "53 + k \<le> binade q") simp_all
  define e where "e = max (binade q) (- 1022)"
  have e: "e \<le> 52 + k" using b k by (simp add: e_def)
  define d where "d = nat (52 + k - e)"
  have scaled: "\<bar>q\<bar> / 2 powi (e - 52) = of_int (\<bar>m\<bar> * 2 ^ d)"
  proof -
    have "\<bar>q\<bar> / 2 powi (e - 52) = of_int \<bar>m\<bar> * (2 powi k * 2 powi (52 - e))"
      unfolding absq by (simp add: power_int_diff field_simps)
    also have "2 powi k * 2 powi (52 - e) = (2::rat) powi (int d)"
    proof -
      have "int d = k + (52 - e)" using e by (simp add: d_def)
      then show ?thesis by (simp only: power_int_add [of "2::rat", simplified])
    qed
    finally show ?thesis by simp
  qed
  have r: "of_int (round_half_even (\<bar>q\<bar> / 2 powi (e - 52))) * 2 powi (e - 52) = \<bar>q\<bar>"
  proof -
    have "of_int (round_half_even (\<bar>q\<bar> / 2 powi (e - 52))) = \<bar>q\<bar> / 2 powi (e - 52)"
      unfolding scaled round_half_even_int ..
    then show ?thesis by simp
  qed
  have small: "\<bar>q\<bar> < 2 ^ 1024"
  proof -
    have "(2::rat) powi (53 + k) \<le> 2 powi 1024"
      using k by (intro power_int_increasing) simp_all
    then show ?thesis using lt by simp
  qed
  have sgn: "(if 0 < q then \<bar>q\<bar> else - \<bar>q\<bar>) = q" by simp
  have "round_float64 q = Fin q"
    unfolding round_float64_def Let_def e_def [symmetric] r
    using q0 small sgn by (simp only: if_False not_le [symmetric])
  then show ?thesis by (simp add: q_def)
qed

lemma float64_of_int_exact: "\<bar>i\<bar> < 2 ^ 53 \<Longrightarrow> float64_of_int i = Fin (of_int i)"
  using round_float64_exact [of i 0] by (simp add: float64_of_int_def)

lemma f64_div_two_exact:
  "\<bar>i\<bar> < 2 ^ 53 \<Longrightarrow> f64_div (Fin (of_int i)) (Fin 2) = Fin (of_int i / 2)"
  using round_float64_exact [of i "- 1"] by simp

subsection \<open>average and median\<close>

lemma map_insort_key: "map f (insort_key f x xs) = insort (f x) (map f xs)"
  by (induction xs) simp_all

lemma map_sort_key: "map f (sort_key f xs) = sort (map f xs)"
  by (induction xs) (simp_all add: map_insort_key)

lemma foldl_add_word: "foldl (\<lambda>total num. total + num) (a :: int64) nums = a + sum_list nums"
  by (induction nums arbitrary: a) (simp_all add: add.assoc)

lemma word_of_int_sum_sint: "(word_of_int (sum_list (map sint nums)) :: int64) = sum_list nums"
  by (induction nums) simp_all

lemma sint_total:
  assumes "\<bar>sum_list (map sint nums)\<bar> < 2 ^ 63"
  shows "sint (foldl (\<lambda>total num. total + num) (0 :: int64) nums) = sum_list (map sint nums)"
proof -
  have "sint (sum_list nums :: int64) = sint (word_of_int (sum_list (map sint nums)) :: int64)"
    by (simp only: word_of_int_sum_sint)
  also have "\<dots> = signed_take_bit 63 (sum_list (map sint nums))"
    by (simp add: sint_sbintrunc')
  also have "\<dots> = sum_list (map sint nums)"
    using assms by (intro signed_take_bit_int_eq_self) auto
  finally show ?thesis by (simp add: foldl_add_word)
qed

lemma sint_add_small:
  assumes "\<bar>sint (a :: int64) + sint b\<bar> < 2 ^ 63"
  shows "sint (a + b) = sint a + sint b"
  using sint_total [of "[a, b]"] assms by simp

lemma abs_sum_bound: "\<bar>a\<bar> < k \<Longrightarrow> \<bar>b\<bar> < k \<Longrightarrow> \<bar>a + b\<bar> < 2 * (k :: int)"
  by linarith

lemma median_even:
  assumes "even (length nums)" and "nums \<noteq> []"
  shows "median nums =
           Inr (f64_div (float64_of_int (sint (sort_key sint nums ! (length nums div 2 - 1)
                                                + sort_key sint nums ! (length nums div 2)))) (Fin 2))"
proof -
  define s where "s = sort_key sint nums"
  define n where "n = length nums"
  have len: "length s = n" by (simp add: s_def n_def)
  have "0 < n" "even n" using assms by (simp_all add: n_def)
  then have n2: "2 \<le> n" by presburger
  have ev: "int n mod 2 = 0" using assms(1) unfolding n_def by presburger
  have i1: "index s (int n div 2 - 1) = Inr (s ! (n div 2 - 1))"
  proof -
    have "0 \<le> int n div 2 - 1" "int n div 2 - 1 < int n" "nat (int n div 2 - 1) = n div 2 - 1"
      using n2 by linarith+
    then show ?thesis by (simp only: index_def len if_True simp_thms)
  qed
  have i2: "index s (int n div 2) = Inr (s ! (n div 2))"
  proof -
    have "0 \<le> int n div 2" "int n div 2 < int n" "nat (int n div 2) = n div 2"
      using n2 by linarith+
    then show ?thesis by (simp only: index_def len if_True simp_thms)
  qed
  show ?thesis
    unfolding median_def Let_def s_def [symmetric] len n_def [symmetric]
    by (simp only: ev i1 i2 and_then_def sum.case if_True refl)
qed

lemma median_odd:
  assumes "odd (length nums)"
  shows "median nums = Inr (float64_of_int (sint (sort_key sint nums ! (length nums div 2))))"
proof -
  define s where "s = sort_key sint nums"
  define n where "n = length nums"
  have len: "length s = n" by (simp add: s_def n_def)
  have n1: "1 \<le> n" using assms by (cases nums) (auto simp: n_def)
  have od: "int n mod 2 \<noteq> 0" using assms unfolding n_def by presburger
  have i2: "index s (int n div 2) = Inr (s ! (n div 2))"
  proof -
    have "0 \<le> int n div 2" "int n div 2 < int n" "nat (int n div 2) = n div 2"
      using n1 by linarith+
    then show ?thesis by (simp only: index_def len if_True simp_thms)
  qed
  show ?thesis
    unfolding median_def Let_def s_def [symmetric] len n_def [symmetric]
    by (simp only: od i2 and_then_def sum.case if_False)
qed

lemma median_nonempty: "nums \<noteq> [] \<Longrightarrow> \<exists>m. median nums = Inr m"
  using median_even [of nums] median_odd [of nums] by (cases "even (length nums)") auto

lemma median_small:
  assumes ne: "nums \<noteq> []" and small: "\<forall>x\<in>set nums. \<bar>sint x\<bar> < 2 ^ 52"
  shows "median nums = Inr (Fin (spec_median (map sint nums)))"
proof -
  define s where "s = sort_key sint nums"
  define n where "n = length nums"
  have n: "0 < n" "length s = n" using ne by (simp_all add: n_def s_def)
  have mem: "\<And>i. i < n \<Longrightarrow> \<bar>sint (s ! i)\<bar> < 2 ^ 52"
  proof -
    fix i assume "i < n"
    then have "s ! i \<in> set nums" unfolding n_def s_def by (metis length_sort nth_mem set_sort)
    then show "\<bar>sint (s ! i)\<bar> < 2 ^ 52" using small by blast
  qed
  have srt: "sort (map sint nums) = map sint s" by (simp add: s_def map_sort_key)
  show ?thesis
  proof (cases "even n")
    case True
    then have n2: "2 \<le> n" using n(1) by presburger
    have l1: "n div 2 - 1 < n" and l2: "n div 2 < n" using n2 by auto
    define m1 where "m1 = s ! (n div 2 - 1)"
    define m2 where "m2 = s ! (n div 2)"
    have b: "\<bar>sint m1 + sint m2\<bar> < 2 ^ 53"
      using abs_sum_bound [OF mem [OF l1] mem [OF l2]] by (simp add: m1_def m2_def)
    then have sum: "sint (m1 + m2) = sint m1 + sint m2"
      by (intro sint_add_small) simp
    have "f64_div (float64_of_int (sint (m1 + m2))) (Fin 2) = Fin (of_int (sint m1 + sint m2) / 2)"
      unfolding sum float64_of_int_exact [OF b] by (rule f64_div_two_exact [OF b])
    moreover have "median nums = Inr (f64_div (float64_of_int (sint (m1 + m2))) (Fin 2))"
      using median_even [OF True [unfolded n_def] ne] by (simp only: m1_def m2_def s_def n_def)
    moreover have "spec_median (map sint nums) = of_int (sint m1 + sint m2) / 2"
      using True l1 l2 n by (simp add: spec_median_def Let_def srt m1_def m2_def n_def [symmetric])
    ultimately show ?thesis by simp
  next
    case False
    have l2: "n div 2 < n" using n by auto
    define m where "m = s ! (n div 2)"
    have b: "\<bar>sint m\<bar> < 2 ^ 53" using mem [OF l2] by (simp add: m_def)
    have "median nums = Inr (float64_of_int (sint m))"
      using median_odd [OF False [unfolded n_def]] by (simp only: m_def s_def n_def)
    moreover have "spec_median (map sint nums) = of_int (sint m)"
      using False l2 n by (simp add: spec_median_def Let_def srt m_def n_def [symmetric])
    ultimately show ?thesis using b by (simp add: float64_of_int_exact)
  qed
qed

lemma average_small:
  assumes len: "length nums < 2 ^ 53" and tot: "\<bar>sum_list (map sint nums)\<bar> < 2 ^ 53"
    and ne: "nums \<noteq> []"
  shows "average nums = round_float64 (spec_mean (map sint nums))"
proof -
  have t63: "\<bar>sum_list (map sint nums)\<bar> < 2 ^ 63" using tot by simp
  have l: "float64_of_int (int (length nums)) = Fin (of_nat (length nums))"
    using len float64_of_int_exact [of "int (length nums)"] by simp
  have l0: "(of_nat (length nums) :: rat) \<noteq> 0" using ne by simp
  show ?thesis
    using l0
    by (simp add: average_def Let_def sint_total [OF t63] float64_of_int_exact [OF tot] l
        spec_mean_def)
qed

text \<open>
  C5 (as amended). For every non-empty sample sequence whose samples are below
  \<open>2 ^ 52\<close> in magnitude, \<open>median\<close> returns the exact middle element of the samples
  sorted ascending when the count is odd, and the mean of the two middle elements when it
  is even; and when moreover the sum of the samples is below \<open>2 ^ 53\<close> in magnitude and
  there are fewer than \<open>2 ^ 53\<close> of them, \<open>average\<close> returns the sum divided by the
  count, rounded to the nearest \<^verbatim>\<open>float64\<close>. Without the bounds the claim fails: the
  sum of the two middle elements wraps around in a Go \<^verbatim>\<open>int\<close>, and an integer above
  \<open>2 ^ 53\<close> need not be a \<^verbatim>\<open>float64\<close>.
\<close>

theorem median_average_within_bounds:
  assumes "nums \<noteq> []" and "\<forall>x\<in>set nums. \<bar>sint x\<bar> < 2 ^ 52"
  shows "median nums = Inr (Fin (spec_median (map sint nums)))
         \<and> (length nums < 2 ^ 53 \<and> \<bar>sum_list (map sint nums)\<bar> < 2 ^ 53
              \<longrightarrow> average nums = round_float64 (spec_mean (map sint nums)))"
  using assms median_small [of nums] average_small [of nums] by blast

text \<open>
  The instances named by C5: \<open>median [3, 1, 2] = 2\<close>, \<open>median [3, 1, 2, 4] = 2.5\<close> and
  \<open>average [1, 2, 3] = 2\<close>.
\<close>

theorem median_average_within_bounds_witness:
  "median [3, 1, 2] = Inr (Fin 2) \<and> median [3, 1, 2, 4] = Inr (Fin (5 / 2))
   \<and> average [1, 2, 3] = Fin 2"
proof -
  have "median [3, 1, 2] = Inr (Fin 2)"
    using median_average_within_bounds [of "[3, 1, 2]"] by (simp add: spec_median_def)
  moreover have "median [3, 1, 2, 4] = Inr (Fin (5 / 2))"
    using median_average_within_bounds [of "[3, 1, 2, 4]"] by (simp add: spec_median_def)
  moreover have "average [1, 2, 3] = Fin 2"
    using median_average_within_bounds [of "[1, 2, 3]"] round_float64_exact [of 2 0]
    by (simp add: spec_mean_def)
  ultimately show ?thesis by simp
qed

text \<open>
  C5 as stated fails on two samples of \<open>2 ^ 62\<close> rows: their sum wraps around to
  \<open>- 2 ^ 63\<close> and \<open>median\<close> returns \<open>- 2 ^ 62\<close>, while the mean of the two middle
  elements is \<open>2 ^ 62\<close>.
\<close>

theorem median_overflow_counterexample:
  "median [4611686018427387904, 4611686018427387904] = Inr (Fin (- 4611686018427387904))
   \<and> spec_median (map sint [4611686018427387904, 4611686018427387904 :: int64])
       = 4611686018427387904"
proof -
  have a: "float64_of_int (- 9223372036854775808) = Fin (- 9223372036854775808)"
    using round_float64_exact [of "- 1" 63] by (simp add: float64_of_int_def)
  have b: "round_float64 (- 4611686018427387904) = Fin (- 4611686018427387904)"
    using round_float64_exact [of "- 1" 62] by simp
  have "median [4611686018427387904, 4611686018427387904] = Inr (Fin (- 4611686018427387904))"
    using median_even [of "[4611686018427387904, 4611686018427387904]"] by (simp add: a b)
  then show ?thesis by (simp add: spec_median_def)
qed

subsection \<open>median on the store\<close>

lemma arrays_overwrite_other: "a \<noteq> sl_array s \<Longrightarrow> arrays (overwrite M s xs) a = arrays M a"
  by (simp add: overwrite_def Let_def)

lemma arrays_overwrite_same:
  "arrays (overwrite M s xs) (sl_array s) =
     take (sl_off s) (arrays M (sl_array s)) @ take (sl_len s) xs
       @ drop (sl_off s + length (take (sl_len s) xs)) (arrays M (sl_array s))"
  by (simp add: overwrite_def Let_def)

lemma median_mem_memory:
  "snd (median_mem M nums) =
     sort_Ints (copy (snd (make_slice M (sl_len nums))) (fst (make_slice M (sl_len nums))) nums)
       (fst (make_slice M (sl_len nums)))"
  by (simp add: median_mem_def Let_def split: prod.split)

lemma median_mem_arrays:
  assumes "a < next_free M"
  shows "arrays (snd (median_mem M nums)) a = arrays M a"
proof -
  have "a \<noteq> sl_array (fst (make_slice M (sl_len nums)))" using assms by (simp add: make_slice_def)
  then show ?thesis
    using assms
    by (simp add: median_mem_memory sort_Ints_def copy_def arrays_overwrite_other)
       (simp add: make_slice_def)
qed

lemma median_mem_value:
  assumes alloc: "sl_array nums < next_free M"
    and inb: "sl_off nums + sl_len nums \<le> length (arrays M (sl_array nums))"
  shows "fst (median_mem M nums) = median (contents M nums)"
proof -
  define n where "n = sl_len nums"
  define p where "p = next_free M"
  define s' where "s' = fst (make_slice M n)"
  define M1 where "M1 = snd (make_slice M n)"
  define M2 where "M2 = copy M1 s' nums"
  define M3 where "M3 = sort_Ints M2 s'"
  have s': "sl_array s' = p" "sl_off s' = 0" "sl_len s' = n"
    by (simp_all add: s'_def make_slice_def p_def)
  have mk: "make_slice M n = (s', M1)" by (simp add: s'_def M1_def)
  have ne: "sl_array nums \<noteq> p" using alloc by (simp add: p_def)
  have len: "length (contents M nums) = n" using inb by (simp add: contents_def n_def)
  have c1: "contents M1 nums = contents M nums"
    using ne by (simp add: contents_def M1_def make_slice_def p_def)
  have a1: "arrays M1 p = replicate n 0" by (simp add: M1_def make_slice_def p_def)
  have nl: "sl_len nums = n" by (simp add: n_def)
  have a2: "arrays M2 p = contents M nums"
    using len
    by (simp add: M2_def copy_def arrays_overwrite_same [of M1 s', unfolded s'] s' a1 c1 nl)
  have c2: "contents M2 s' = contents M nums"
    using len by (simp add: contents_def [of M2] s' a2)
  have a3: "arrays M3 p = sort_key sint (contents M nums)"
    using len by (simp add: M3_def sort_Ints_def arrays_overwrite_same [of M2 s', unfolded s'] s' a2 c2)
  have c3: "contents M3 s' = sort_key sint (contents M nums)"
    using len by (simp add: contents_def [of M3] s' a3)
  have "fst (median_mem M nums) =
          (if int n mod 2 = 0
           then and_then (index (contents M3 s') (int n div 2 - 1)) (\<lambda>mid1.
                and_then (index (contents M3 s') (int n div 2)) (\<lambda>mid2.
                Inr (f64_div (float64_of_int (sint (mid1 + mid2))) (Fin 2))))
           else and_then (index (contents M3 s') (int n div 2)) (\<lambda>mid.
                Inr (float64_of_int (sint mid))))"
    unfolding median_mem_def nl mk Let_def prod.case fst_conv
      M2_def [symmetric] M3_def [symmetric] s'(3)
    by (rule refl)
  then show ?thesis
    by (simp add: c3 median_def Let_def len)
qed

text \<open>
  C9. Calling \<open>median\<close> leaves the caller's sequence unchanged: on the store, the
  elements of the argument slice after the call are those before it, and so is every
  array that was allocated before the call (the copy is sorted, in a fresh array).
\<close>

theorem median_leaves_input_unchanged:
  assumes "sl_array nums < next_free M"
  shows "contents (snd (median_mem M nums)) nums = contents M nums
         \<and> (\<forall>a. a < next_free M \<longrightarrow> arrays (snd (median_mem M nums)) a = arrays M a)"
  using assms by (simp add: contents_def median_mem_arrays)

theorem median_leaves_input_unchanged_witness:
  "contents (snd (median_mem \<lparr>arrays = (\<lambda>a. [])(0 := [7, 3, 1, 2]), next_free = 1\<rparr>
                     \<lparr>sl_array = 0, sl_off = 1, sl_len = 3\<rparr>))
            \<lparr>sl_array = 0, sl_off = 1, sl_len = 3\<rparr> = [3, 1, 2]
   \<and> fst (median_mem \<lparr>arrays = (\<lambda>a. [])(0 := [7, 3, 1, 2]), next_free = 1\<rparr>
                     \<lparr>sl_array = 0, sl_off = 1, sl_len = 3\<rparr>) = Inr (Fin 2)"
proof -
  let ?M = "\<lparr>arrays = (\<lambda>a. [])(0 := [7, 3, 1, 2 :: int64]), next_free = 1\<rparr>"
  let ?s = "\<lparr>sl_array = 0, sl_off = 1, sl_len = 3\<rparr>"
  have c: "contents ?M ?s = [3, 1, 2]" by (simp add: contents_def)
  have "contents (snd (median_mem ?M ?s)) ?s = [3, 1, 2]"
    using median_leaves_input_unchanged [of ?s ?M] c by simp
  moreover have "fst (median_mem ?M ?s) = Inr (Fin 2)"
  proof -
    have "fst (median_mem ?M ?s) = median (contents ?M ?s)"
      using median_mem_value [of ?s ?M] by simp
    also have "\<dots> = median [3, 1, 2]" by (simp only: c)
    also have "\<dots> = Inr (Fin 2)"
      using median_small [of "[3, 1, 2]"] by (simp add: spec_median_def)
    finally show ?thesis .
  qed
  ultimately show ?thesis by simp
qed

subsection \<open>Writing fields\<close>

lemma and_then_Inr [simp]: "and_then (Inr x) f = f x"
  by (simp add: and_then_def)

lemma and_then_Inl [simp]: "and_then (Inl e) f = Inl e"
  by (simp add: and_then_def)

lemma and_then_assoc: "and_then (and_then r f) g = and_then r (\<lambda>x. and_then (f x) g)"
  by (cases r) simp_all

lemma write_fields_append:
  "write_fields X '','' buf (fs @ gs) =
     and_then (write_fields X '','' buf fs) (\<lambda>b. write_fields X '','' b gs)"
  by (induction fs arbitrary: buf) (auto split: sum.split)

lemma write_fields_chain:
  "and_then (write_fields X '','' buf fs) (\<lambda>b. and_then (write_fields X '','' b gs) K) =
     and_then (write_fields X '','' buf (fs @ gs)) K"
  by (simp add: write_fields_append and_then_assoc)

lemma write_fields_single:
  "write_fields X prepend buf [(name, f)] = marshalAdd (encode_field X) prepend buf name f"
  by (simp split: sum.split)

lemma marshalAdd_Plain:
  "marshalAdd (Encode X) prepend buf name v = marshalAdd (encode_field X) prepend buf name (Plain v)"
  by (simp add: marshalAdd_def encode_field_def)

lemma marshalAdd_Children:
  "marshalAdd (\<lambda>ds. encode_Marshalers (MarshalJSON_elems X ds)) prepend buf name ds =
     marshalAdd (encode_field X) prepend buf name (Children ds)"
  by (simp add: marshalAdd_def encode_field_def)

subsection \<open>addMap\<close>

lemma addMap_loop_write_fields:
  "addMap_loop X input buf ks = write_fields X '','' buf (map (\<lambda>k. (k, Plain (lookup input k))) ks)"
  by (induction ks arbitrary: buf) (simp_all add: marshalAdd_Plain Let_def split: sum.split)

lemma kept_keys:
  assumes "distinct (map fst m)"
  shows "map fst (filter (\<lambda>(k, v). \<not> omitted v) m) =
           filter (\<lambda>k. \<not> omitted (case map_of m k of None \<Rightarrow> ANil | Some v \<Rightarrow> v)) (map fst m)"
proof -
  have "filter (\<lambda>(k, v). \<not> omitted v) m =
          filter (\<lambda>kv. \<not> omitted (case map_of m (fst kv) of None \<Rightarrow> ANil | Some v \<Rightarrow> v)) m"
    using assms by (intro filter_cong) auto
  then show ?thesis by (simp add: filter_map comp_def)
qed

lemma addMap_write_fields:
  assumes "distinct (map fst (entries input))"
  shows "addMap X input buf = write_fields X '','' buf (extension_fields input)"
  using kept_keys [OF assms]
  by (simp add: addMap_def extension_fields_def addMap_loop_write_fields lookup_def)

lemma extension_fields_keys:
  "map fst (extension_fields input) =
     sort (filter (\<lambda>k. \<not> omitted (lookup input k)) (map fst (entries input)))"
  by (simp add: extension_fields_def comp_def)

lemma extension_fields_sorted:
  assumes "distinct (map fst (entries input))"
  shows "sorted_wrt (<) (map fst (extension_fields input))"
  using assms by (simp add: extension_fields_keys strict_sorted_iff)

lemma extension_fields_mem:
  assumes "distinct (map fst (entries input))"
  shows "(k, Plain v) \<in> set (extension_fields input)
           \<longleftrightarrow> map_of (entries input) k = Some v \<and> \<not> omitted v"
proof -
  have "(k, Plain v) \<in> set (extension_fields input)
          \<longleftrightarrow> k \<in> fst ` set (entries input) \<and> \<not> omitted (lookup input k) \<and> v = lookup input k"
    by (auto simp: extension_fields_def)
  also have "\<dots> \<longleftrightarrow> map_of (entries input) k = Some v \<and> \<not> omitted v"
  proof (cases "map_of (entries input) k")
    case None
    then have "k \<notin> fst ` set (entries input)" by (simp add: map_of_eq_None_iff)
    with None show ?thesis by simp
  next
    case (Some w)
    then have "(k, w) \<in> set (entries input)" by (rule map_of_SomeD)
    then have "k \<in> fst ` set (entries input)" by force
    then show ?thesis using Some by (auto simp: lookup_def)
  qed
  finally show ?thesis .
qed

text \<open>
  C2 (as amended). For every extension map, \<open>addMap\<close> writes its keys in lexicographic
  order, each once, and a key is skipped iff its value is the empty string, \<^verbatim>\<open>nil\<close>,
  the \<^verbatim>\<open>int\<close> zero or \<^verbatim>\<open>false\<close>; every other value is written, in particular an
  empty sequence, a negative number, a non-empty string, and a zero of another numeric
  type such as \<^verbatim>\<open>float64\<close>. The keys of a Go map are distinct, which is the
  assumption.
\<close>

theorem addMap_sorted_skips_defaults:
  assumes "distinct (map fst (entries input))"
  shows "addMap X input buf = write_fields X '','' buf (extension_fields input)
         \<and> sorted_wrt (<) (map fst (extension_fields input))
         \<and> (\<forall>k f. (k, f) \<in> set (extension_fields input) \<longleftrightarrow>
               (\<exists>v. f = Plain v \<and> map_of (entries input) k = Some v
                    \<and> v \<noteq> AString '''' \<and> v \<noteq> ANil \<and> v \<noteq> AInt 0 \<and> v \<noteq> ABool False))"
proof -
  have "(k, f) \<in> set (extension_fields input) \<longleftrightarrow>
          (\<exists>v. f = Plain v \<and> map_of (entries input) k = Some v
               \<and> v \<noteq> AString '''' \<and> v \<noteq> ANil \<and> v \<noteq> AInt 0 \<and> v \<noteq> ABool False)" for k f
  proof (cases f)
    case (Plain v)
    then show ?thesis using extension_fields_mem [OF assms, of k v] by (auto simp: omitted_def)
  next
    case (Children ds)
    then show ?thesis by (auto simp: extension_fields_def)
  qed
  then show ?thesis
    using addMap_write_fields [OF assms] extension_fields_sorted [OF assms] by blast
qed

text \<open>
  An instance: of the nine entries, the four default-valued ones are skipped and the
  others are written in the order \<open>a, b, e, m, t\<close>.
\<close>

theorem addMap_sorted_skips_defaults_witness:
  "addMap demo
     (Some [(''b'', AInt 1), (''a'', AInt 2), (''s'', AString ''''), (''n'', ANil),
            (''z'', AInt 0), (''f'', ABool False), (''e'', AStrings []), (''m'', AInt (- 5)),
            (''t'', AString ''x'')]) ''''
   = Inr ('','' @ quoted ''a'' @ '':2'' @ newline
          @ '','' @ quoted ''b'' @ '':1'' @ newline
          @ '','' @ quoted ''e'' @ '':[]'' @ newline
          @ '','' @ quoted ''m'' @ '':-5'' @ newline
          @ '','' @ quoted ''t'' @ '':'' @ quoted ''x'' @ newline)"
  using addMap_sorted_skips_defaults
    [of "Some [(''b'', AInt 1), (''a'', AInt 2), (''s'', AString ''''), (''n'', ANil),
               (''z'', AInt 0), (''f'', ABool False), (''e'', AStrings []), (''m'', AInt (- 5)),
               (''t'', AString ''x'')]" demo "''''"]
  by (simp add: entries_def extension_fields_def lookup_def omitted_def marshalAdd_def
      encode_field_def Encode_def demo_def demo_json_def show_int_def decimal.simps quoted_def)

text \<open>
  C2 as stated fails for a numeric zero that is not an \<^verbatim>\<open>int\<close>: the entry
  \<^verbatim>\<open>"z": float64(0)\<close> is written.
\<close>

theorem addMap_float_zero_counterexample:
  "addMap demo (Some [(''z'', AFloat64 (Fin 0))]) '''' = Inr ('','' @ quoted ''z'' @ '':0'' @ newline)"
  by (simp add: addMap_def entries_def lookup_def omitted_def marshalAdd_def
      Encode_def demo_def demo_json_def show_float_def decimal.simps quoted_def)

subsection \<open>MarshalJSON writes the fields of the specification\<close>

lemma stats_step:
  "(if 0 < length (Stats pd)
    then and_then (marshalAdd (Encode X) '','' buf ''NoOfCalls''
                     (AInt (of_nat (length (Stats pd))))) (\<lambda>buf.
         and_then (marshalAdd (Encode X) '','' buf ''AvgNumberOfRows''
                     (AFloat64 (average (Stats pd)))) (\<lambda>buf.
         and_then (median (Stats pd)) (\<lambda>m.
         marshalAdd (Encode X) '','' buf ''MedianNumberOfRows'' (AFloat64 m))))
    else Inr buf) = write_fields X '','' buf (stats_fields pd)"
proof (cases "Stats pd = []")
  case True
  then show ?thesis by (simp add: stats_fields_def)
next
  case False
  then obtain m where m: "median (Stats pd) = Inr m" using median_nonempty by blast
  show ?thesis
    using False
    by (simp add: stats_fields_def m marshalAdd_Plain and_then_def split: sum.split)
qed

lemma write_object_and_then:
  "write_object X fs = and_then (write_fields X '''' ''{'' fs) (\<lambda>buf. Inr (buf @ ''}''))"
  by (simp add: write_object_def and_then_def)

lemma write_fields_Cons_chain:
  "and_then (marshalAdd (Encode X) p b name v)
     (\<lambda>buf. and_then (write_fields X '','' buf fs) K)
   = and_then (write_fields X p b ((name, Plain v) # fs)) K"
  by (simp add: marshalAdd_Plain and_then_def split: sum.split)

lemma write_fields_Cons_append:
  "write_fields X p b ((name, f) # fs @ gs) =
     and_then (write_fields X p b ((name, f) # fs)) (\<lambda>buf. write_fields X '','' buf gs)"
  by (simp add: write_fields_append and_then_def split: sum.split)

text \<open>
  The serialiser in three parts: the fields before the target destination, the step that
  slices the destination's text, and the fields after it.
\<close>

lemma MarshalJSON_split:
  assumes keys: "distinct (map fst (entries (Other pd)))"
  shows "MarshalJSON X pd =
           and_then (write_fields X '''' ''{'' (fields_before_destination X pd)) (\<lambda>buf.
           and_then
             (case TargetDestination pd of
                Some d \<Rightarrow>
                  and_then (slice_from (String d) 11) (\<lambda>dest.
                  marshalAdd (Encode X) '','' buf ''TargetDestination'' (AString dest))
              | None \<Rightarrow> Inr buf) (\<lambda>buf.
           and_then (write_fields X '','' buf (fields_after_destination X pd)) (\<lambda>buf.
           Inr (buf @ ''}''))))"
proof -
  define v where "v = (if Variant pd \<noteq> '''' then [(''Variant'', Plain (AString (Variant pd)))] else [])"
  define ks where "ks = (case Keyspace pd of Some ks \<Rightarrow> [(''Keyspace'', Plain (AKeyspace ks))]
                         | None \<Rightarrow> [])"
  define tt where "tt = (if TargetTabletType pd \<noteq> TabletType_UNKNOWN
        then [(''TargetTabletType'', Plain (AString (TabletType_String X (TargetTabletType pd))))]
        else [])"
  define K where "K = (\<lambda>buf.
           and_then
             (case TargetDestination pd of
                Some d \<Rightarrow>
                  and_then (slice_from (String d) 11) (\<lambda>dest.
                  marshalAdd (Encode X) '','' buf ''TargetDestination'' (AString dest))
              | None \<Rightarrow> Inr buf) (\<lambda>buf.
           and_then (write_fields X '','' buf (fields_after_destination X pd)) (\<lambda>buf.
           Inr (buf @ ''}''))))"
  have hv: "\<And>buf. (if Variant pd \<noteq> ''''
                   then marshalAdd (Encode X) '','' buf ''Variant'' (AString (Variant pd))
                   else Inr buf) = write_fields X '','' buf v"
    by (simp add: v_def marshalAdd_Plain split: sum.split)
  have hk: "\<And>buf. (case Keyspace pd of
                     Some ks \<Rightarrow> marshalAdd (Encode X) '','' buf ''Keyspace'' (AKeyspace ks)
                   | None \<Rightarrow> Inr buf) = write_fields X '','' buf ks"
    by (simp add: ks_def marshalAdd_Plain split: sum.split option.split)
  have ht: "\<And>buf. (if TargetTabletType pd \<noteq> TabletType_UNKNOWN
                   then marshalAdd (Encode X) '','' buf ''TargetTabletType''
                          (AString (TabletType_String X (TargetTabletType pd)))
                   else Inr buf) = write_fields X '','' buf tt"
    by (simp add: tt_def marshalAdd_Plain split: sum.split)
  have hi: "\<And>buf. (if 0 < length (elems (Inputs pd))
                   then marshalAdd (\<lambda>ds. encode_Marshalers (MarshalJSON_elems X ds)) '','' buf
                          ''Inputs'' (elems (Inputs pd))
                   else Inr buf) = write_fields X '','' buf (inputs_fields pd)"
    by (simp add: inputs_fields_def marshalAdd_Children split: sum.split)
  have after: "fields_after_destination X pd =
                 tt @ stats_fields pd @ extension_fields (Other pd) @ inputs_fields pd"
    by (simp add: fields_after_destination_def tt_def)
  have tail: "\<And>buf.
      and_then
        (if Variant pd \<noteq> ''''
         then marshalAdd (Encode X) '','' buf ''Variant'' (AString (Variant pd))
         else Inr buf) (\<lambda>buf.
      and_then
        (case Keyspace pd of
           Some ks \<Rightarrow> marshalAdd (Encode X) '','' buf ''Keyspace'' (AKeyspace ks)
         | None \<Rightarrow> Inr buf) (\<lambda>buf.
      and_then
        (case TargetDestination pd of
           Some d \<Rightarrow>
             and_then (slice_from (String d) 11) (\<lambda>dest.
             marshalAdd (Encode X) '','' buf ''TargetDestination'' (AString dest))
         | None \<Rightarrow> Inr buf) (\<lambda>buf.
      and_then
        (if TargetTabletType pd \<noteq> TabletType_UNKNOWN
         then marshalAdd (Encode X) '','' buf ''TargetTabletType''
                (AString (TabletType_String X (TargetTabletType pd)))
         else Inr buf) (\<lambda>buf.
      and_then
        (if 0 < length (Stats pd)
         then and_then (marshalAdd (Encode X) '','' buf ''NoOfCalls''
                          (AInt (of_nat (length (Stats pd))))) (\<lambda>buf.
              and_then (marshalAdd (Encode X) '','' buf ''AvgNumberOfRows''
                          (AFloat64 (average (Stats pd)))) (\<lambda>buf.
              and_then (median (Stats pd)) (\<lambda>m.
              marshalAdd (Encode X) '','' buf ''MedianNumberOfRows'' (AFloat64 m))))
         else Inr buf) (\<lambda>buf.
      and_then (addMap X (Other pd) buf) (\<lambda>buf.
      and_then
        (if 0 < length (elems (Inputs pd))
         then marshalAdd (\<lambda>ds. encode_Marshalers (MarshalJSON_elems X ds)) '','' buf
                ''Inputs'' (elems (Inputs pd))
         else Inr buf) (\<lambda>buf.
      Inr (buf @ ''}''))))))))
      = and_then (write_fields X '','' buf (v @ ks)) K"
    unfolding hv hk ht hi stats_step addMap_write_fields [OF keys] write_fields_chain K_def after
    by (rule refl)
  show ?thesis
  proof (cases "InputName pd = ''''")
    case True
    have "MarshalJSON X pd =
            and_then (write_fields X '''' ''{''
                ((''OperatorType'', Plain (AString (OperatorType pd))) # v @ ks)) K"
      unfolding MarshalJSON.simps [of X pd] Let_def using True
      by (simp only: if_False simp_thms and_then_Inr prod.case tail write_fields_Cons_chain)
    moreover have "fields_before_destination X pd =
                     (''OperatorType'', Plain (AString (OperatorType pd))) # v @ ks"
      using True by (simp add: fields_before_destination_def v_def ks_def)
    ultimately show ?thesis by (simp only: K_def)
  next
    case False
    have "MarshalJSON X pd =
            and_then (write_fields X '''' ''{''
                ((''InputName'', Plain (AString (InputName pd)))
                 # (''OperatorType'', Plain (AString (OperatorType pd))) # v @ ks)) K"
      unfolding MarshalJSON.simps [of X pd] Let_def using False
      by (simp only: if_True simp_thms and_then_assoc and_then_Inr prod.case tail
          write_fields_Cons_chain)
    moreover have "fields_before_destination X pd =
                     (''InputName'', Plain (AString (InputName pd)))
                     # (''OperatorType'', Plain (AString (OperatorType pd))) # v @ ks"
      using False by (simp add: fields_before_destination_def v_def ks_def)
    ultimately show ?thesis by (simp only: K_def)
  qed
qed

lemma fields_before_destination_Cons:
  "\<exists>name f fs. fields_before_destination X pd = (name, f) # fs"
  by (simp add: fields_before_destination_def)

lemma head_fields_split:
  "head_fields X pd @ stats_fields pd @ extension_fields (Other pd) @ inputs_fields pd =
     fields_before_destination X pd
     @ (case TargetDestination pd of
          Some d \<Rightarrow> [(''TargetDestination'', Plain (AString (drop 11 (String d))))]
        | None \<Rightarrow> [])
     @ fields_after_destination X pd"
  by (simp add: head_fields_def fields_before_destination_def fields_after_destination_def)

lemma write_fields_brace_append:
  "write_fields X '''' ''{'' (fields_before_destination X pd @ gs) =
     and_then (write_fields X '''' ''{'' (fields_before_destination X pd))
       (\<lambda>buf. write_fields X '','' buf gs)"
proof -
  obtain name f fs where c: "fields_before_destination X pd = (name, f) # fs"
    using fields_before_destination_Cons by blast
  show ?thesis unfolding c using write_fields_Cons_append [of X "''''" "''{''" name f fs gs] by simp
qed

lemma MarshalJSON_fields:
  assumes dest: "\<And>d. TargetDestination pd = Some d \<Longrightarrow> 11 \<le> length (String d)"
    and keys: "distinct (map fst (entries (Other pd)))"
  shows "MarshalJSON X pd =
           write_object X (head_fields X pd @ stats_fields pd @ extension_fields (Other pd)
                           @ inputs_fields pd)"
proof -
  define ds where "ds = (case TargetDestination pd of
                           Some d \<Rightarrow> [(''TargetDestination'', Plain (AString (drop 11 (String d))))]
                         | None \<Rightarrow> [])"
  have hd: "\<And>buf. (case TargetDestination pd of
                     Some d \<Rightarrow>
                       and_then (slice_from (String d) 11) (\<lambda>dest.
                       marshalAdd (Encode X) '','' buf ''TargetDestination'' (AString dest))
                   | None \<Rightarrow> Inr buf) = write_fields X '','' buf ds"
    using dest by (simp add: ds_def marshalAdd_Plain slice_from_def split: sum.split option.split)
  show ?thesis
    unfolding MarshalJSON_split [OF keys] hd write_fields_chain head_fields_split
      write_object_and_then ds_def [symmetric] write_fields_brace_append and_then_assoc
    by (rule refl)
qed

lemma MarshalJSON_short_destination:
  assumes d: "TargetDestination pd = Some d" and short: "length (String d) < 11"
    and keys: "distinct (map fst (entries (Other pd)))"
  shows "MarshalJSON X pd =
           and_then (write_fields X '''' ''{'' (fields_before_destination X pd))
             (\<lambda>buf. Inl RuntimePanic)"
  unfolding MarshalJSON_split [OF keys] using d short by (simp add: slice_from_def)

subsection \<open>The claims about the serialiser\<close>

lemma write_fields_extends:
  "write_fields X p buf fs = Inr b \<Longrightarrow>
     \<exists>t. b = buf @ t \<and> (\<forall>buf'. write_fields X p buf' fs = Inr (buf' @ t))"
proof (induction fs arbitrary: p buf b)
  case Nil
  then show ?case by simp
next
  case (Cons nf fs)
  obtain name f where nf: "nf = (name, f)" by (cases nf)
  from Cons.prems obtain b1 where
    b1: "marshalAdd (encode_field X) p buf name f = Inr b1" and
    rest: "write_fields X '','' b1 fs = Inr b"
    by (auto simp: nf split: sum.splits)
  from b1 obtain e where e: "encode_field X f = Inr e" and
    b1_eq: "b1 = buf @ p @ dq @ name @ dq @ '':'' @ e"
    by (auto simp: marshalAdd_def Let_def split: sum.splits)
  from Cons.IH [OF rest] obtain t where
    t: "b = b1 @ t" "\<forall>buf'. write_fields X '','' buf' fs = Inr (buf' @ t)" by blast
  have "b = buf @ (p @ dq @ name @ dq @ '':'' @ e @ t)" using t(1) b1_eq by simp
  moreover have "\<forall>buf'. write_fields X p buf' (nf # fs) = Inr (buf' @ (p @ dq @ name @ dq @ '':'' @ e @ t))"
    using t(2) e by (simp add: nf marshalAdd_def Let_def)
  ultimately show ?case by blast
qed

text \<open>
  C1. For every PlanDescription the serialiser writes the fields of the JSON object in
  the fixed order InputName, OperatorType, Variant, Keyspace, TargetDestination,
  TargetTabletType, the three statistics fields, the extension fields, Inputs.
  OperatorType is always written; InputName and Variant iff non-empty; Keyspace and
  TargetDestination iff present; TargetTabletType iff not the "unknown" sentinel; Inputs
  iff the child sequence is non-empty. The output, or the failure, is that of writing
  this list of fields; the one exception is a present destination whose text is shorter
  than 11 characters, where the call panics once the fields before it are encoded (C10).
  The keys of a Go map are distinct, which is the assumption.
\<close>

theorem MarshalJSON_field_order:
  assumes "distinct (map fst (entries (Other pd)))"
  shows "MarshalJSON X pd =
     (if \<exists>d. TargetDestination pd = Some d \<and> length (String d) < 11
      then and_then (write_fields X '''' ''{'' (fields_before_destination X pd))
             (\<lambda>buf. Inl RuntimePanic)
      else write_object X
        ((if InputName pd \<noteq> '''' then [(''InputName'', Plain (AString (InputName pd)))] else [])
         @ [(''OperatorType'', Plain (AString (OperatorType pd)))]
         @ (if Variant pd \<noteq> '''' then [(''Variant'', Plain (AString (Variant pd)))] else [])
         @ (case Keyspace pd of Some ks \<Rightarrow> [(''Keyspace'', Plain (AKeyspace ks))] | None \<Rightarrow> [])
         @ (case TargetDestination pd of
              Some d \<Rightarrow> [(''TargetDestination'', Plain (AString (drop 11 (String d))))]
            | None \<Rightarrow> [])
         @ (if TargetTabletType pd \<noteq> TabletType_UNKNOWN
            then [(''TargetTabletType'',
                   Plain (AString (TabletType_String X (TargetTabletType pd))))]
            else [])
         @ stats_fields pd
         @ extension_fields (Other pd)
         @ (if elems (Inputs pd) \<noteq> [] then [(''Inputs'', Children (elems (Inputs pd)))] else [])))"
proof (cases "\<exists>d. TargetDestination pd = Some d \<and> length (String d) < 11")
  case True
  then show ?thesis using MarshalJSON_short_destination [OF _ _ assms] by auto
next
  case False
  then have "\<And>d. TargetDestination pd = Some d \<Longrightarrow> 11 \<le> length (String d)"
    by (meson not_less)
  from MarshalJSON_fields [OF this assms]
  have "MarshalJSON X pd =
          write_object X (head_fields X pd @ stats_fields pd @ extension_fields (Other pd)
                          @ inputs_fields pd)" .
  then show ?thesis
    unfolding head_fields_def inputs_fields_def by (simp only: False if_False append_assoc)
qed

lemma stats_111: "average [1, 1, 1] = Fin 1" "median [1, 1, 1] = Inr (Fin 1)"
proof -
  show "average [1, 1, 1] = Fin 1"
    using average_small [of "[1, 1, 1]"] round_float64_exact [of 1 0] by (simp add: spec_mean_def)
  show "median [1, 1, 1] = Inr (Fin 1)"
    using median_small [of "[1, 1, 1]"] by (simp add: spec_median_def)
qed

lemmas demo_struct =
  write_object_def marshalAdd_def encode_field_def encode_Marshalers_def
  stats_fields_def extension_fields_def entries_def lookup_def omitted_def elems_def
  TabletType_UNKNOWN_def

lemma demo_sel:
  "json_Encode demo v = map_option (\<lambda>s. s @ newline) (demo_json v)"
  "json_compact demo b = Some (filter (\<lambda>c. c \<noteq> CHR 0x0A) b)"
  "TabletType_String demo = demo_TabletType_String"
  "fmt_Sprint demo = demo_Sprint"
  by (simp_all add: demo_def)

lemmas demo_eval =
  demo_struct Encode_def demo_sel demo_json_def demo_TabletType_String_def show_int_def
  show_float_def show_bool_def decimal.simps quoted_def dq_def newline_def

text \<open>
  An instance with every field present: the route of the examples, with an input name, a
  variant, a keyspace, a destination, a tablet type, three samples, two extension fields
  given in the order \<open>b, a\<close>, and one child.
\<close>

theorem MarshalJSON_field_order_witness:
  "MarshalJSON demo ex_route =
     Inr (''{'' @ quoted ''InputName'' @ '':'' @ quoted ''Left'' @ newline
          @ '','' @ quoted ''OperatorType'' @ '':'' @ quoted ''Route'' @ newline
          @ '','' @ quoted ''Variant'' @ '':'' @ quoted ''Scatter'' @ newline
          @ '','' @ quoted ''Keyspace'' @ '':{'' @ quoted ''Name'' @ '':'' @ quoted ''ks''
                 @ '','' @ quoted ''Sharded'' @ '':true}'' @ newline
          @ '','' @ quoted ''TargetDestination'' @ '':'' @ quoted ''AllShards()'' @ newline
          @ '','' @ quoted ''TargetTabletType'' @ '':'' @ quoted ''REPLICA'' @ newline
          @ '','' @ quoted ''NoOfCalls'' @ '':3'' @ newline
          @ '','' @ quoted ''AvgNumberOfRows'' @ '':1'' @ newline
          @ '','' @ quoted ''MedianNumberOfRows'' @ '':1'' @ newline
          @ '','' @ quoted ''a'' @ '':2'' @ newline
          @ '','' @ quoted ''b'' @ '':1'' @ newline
          @ '','' @ quoted ''Inputs'' @ '':[{'' @ quoted ''OperatorType'' @ '':'' @ quoted ''Leaf''
                 @ ''}]'' @ newline
          @ ''}'')"
proof -
  have leaf: "MarshalJSON demo ex_leaf =
                Inr (''{'' @ quoted ''OperatorType'' @ '':'' @ quoted ''Leaf'' @ newline @ ''}'')"
    using MarshalJSON_field_order [of ex_leaf demo] by (simp add: ex_leaf_def demo_eval)
  have elems: "MarshalJSON_elems demo [ex_leaf] =
                 Inr [''{'' @ quoted ''OperatorType'' @ '':'' @ quoted ''Leaf'' @ ''}'']"
    by (simp add: leaf) (simp add: demo_sel quoted_def dq_def newline_def)
  have "MarshalJSON demo ex_route =
          write_object demo
            [(''InputName'', Plain (AString ''Left'')),
             (''OperatorType'', Plain (AString ''Route'')),
             (''Variant'', Plain (AString ''Scatter'')),
             (''Keyspace'', Plain (AKeyspace (MkKeyspace ''ks'' True))),
             (''TargetDestination'', Plain (AString ''AllShards()'')),
             (''TargetTabletType'', Plain (AString (TabletType_String demo 2))),
             (''NoOfCalls'', Plain (AInt 3)),
             (''AvgNumberOfRows'', Plain (AFloat64 (Fin 1))),
             (''MedianNumberOfRows'', Plain (AFloat64 (Fin 1))),
             (''a'', Plain (AInt 2)),
             (''b'', Plain (AInt 1)),
             (''Inputs'', Children [ex_leaf])]"
    using MarshalJSON_field_order [of ex_route demo]
    by (simp add: ex_route_def stats_fields_def stats_111 extension_fields_def entries_def
        lookup_def omitted_def elems_def TabletType_UNKNOWN_def)
  also have "\<dots> = Inr (''{'' @ quoted ''InputName'' @ '':'' @ quoted ''Left'' @ newline
          @ '','' @ quoted ''OperatorType'' @ '':'' @ quoted ''Route'' @ newline
          @ '','' @ quoted ''Variant'' @ '':'' @ quoted ''Scatter'' @ newline
          @ '','' @ quoted ''Keyspace'' @ '':{'' @ quoted ''Name'' @ '':'' @ quoted ''ks''
                 @ '','' @ quoted ''Sharded'' @ '':true}'' @ newline
          @ '','' @ quoted ''TargetDestination'' @ '':'' @ quoted ''AllShards()'' @ newline
          @ '','' @ quoted ''TargetTabletType'' @ '':'' @ quoted ''REPLICA'' @ newline
          @ '','' @ quoted ''NoOfCalls'' @ '':3'' @ newline
          @ '','' @ quoted ''AvgNumberOfRows'' @ '':1'' @ newline
          @ '','' @ quoted ''MedianNumberOfRows'' @ '':1'' @ newline
          @ '','' @ quoted ''a'' @ '':2'' @ newline
          @ '','' @ quoted ''b'' @ '':1'' @ newline
          @ '','' @ quoted ''Inputs'' @ '':[{'' @ quoted ''OperatorType'' @ '':'' @ quoted ''Leaf''
                 @ ''}]'' @ newline
          @ ''}'')"
    by (simp add: elems demo_eval del: MarshalJSON_elems.simps)
  finally show ?thesis .
qed









text \<open>
  C6. For every PlanDescription with a present target destination that serialises, the
  textual form of the destination has at least 11 characters and the output is: the
  fields before the destination, then the field \<open>TargetDestination\<close> whose value is the
  encoding of the textual form without its first 11 characters, then the fields after
  it.
\<close>

theorem TargetDestination_prefix_stripped:
  assumes "distinct (map fst (entries (Other pd)))"
    and "TargetDestination pd = Some d"
    and "MarshalJSON X pd = Inr out"
  shows "11 \<le> length (String d)
         \<and> (\<exists>pre e t.
               write_fields X '''' ''{'' (fields_before_destination X pd) = Inr pre
               \<and> Encode X (AString (drop 11 (String d))) = Inr e
               \<and> (\<forall>buf. write_fields X '','' buf (fields_after_destination X pd) = Inr (buf @ t))
               \<and> out = pre @ '','' @ dq @ ''TargetDestination'' @ dq @ '':'' @ e @ t @ ''}'')"
proof -
  note split = MarshalJSON_split [OF assms(1), of X]
  have len: "11 \<le> length (String d)"
  proof (rule ccontr)
    assume "\<not> 11 \<le> length (String d)"
    then have "length (String d) < 11" by simp
    from MarshalJSON_short_destination [OF assms(2) this assms(1), of X] assms(3) show False
      by (simp add: and_then_def split: sum.splits)
  qed
  then have sl: "slice_from (String d) 11 = Inr (drop 11 (String d))"
    by (simp add: slice_from_def)
  from assms(3) obtain pre where
    pre: "write_fields X '''' ''{'' (fields_before_destination X pd) = Inr pre"
    unfolding split by (cases "write_fields X '''' ''{'' (fields_before_destination X pd)") simp_all
  from assms(3) obtain b1 where
    b1: "marshalAdd (Encode X) '','' pre ''TargetDestination'' (AString (drop 11 (String d))) = Inr b1"
    unfolding split pre
    by (cases "marshalAdd (Encode X) '','' pre ''TargetDestination'' (AString (drop 11 (String d)))")
      (simp_all add: assms(2) sl)
  from b1 obtain e where e: "Encode X (AString (drop 11 (String d))) = Inr e"
    and b1_eq: "b1 = pre @ '','' @ dq @ ''TargetDestination'' @ dq @ '':'' @ e"
    by (auto simp: marshalAdd_def Let_def split: sum.splits)
  from assms(3) obtain b2 where
    b2: "write_fields X '','' b1 (fields_after_destination X pd) = Inr b2" and out: "out = b2 @ ''}''"
    unfolding split pre
    by (cases "write_fields X '','' b1 (fields_after_destination X pd)")
      (simp_all add: assms(2) sl b1)
  from write_fields_extends [OF b2] obtain t where
    t: "b2 = b1 @ t" "\<forall>buf. write_fields X '','' buf (fields_after_destination X pd) = Inr (buf @ t)"
    by blast
  have "out = pre @ '','' @ dq @ ''TargetDestination'' @ dq @ '':'' @ e @ t @ ''}''"
    using out t(1) b1_eq by simp
  with len pre e t(2) show ?thesis by blast
qed

text \<open>
  The destination \<open>DestinationShard(-80)\<close> is written as \<open>Shard(-80)\<close>.
\<close>

theorem TargetDestination_prefix_stripped_witness:
  "MarshalJSON demo ex_destination =
     Inr (''{'' @ quoted ''OperatorType'' @ '':'' @ quoted ''Route'' @ newline
          @ '','' @ quoted ''TargetDestination'' @ '':'' @ quoted ''Shard(-80)'' @ newline @ ''}'')
   \<and> Encode demo (AString (drop 11 ''DestinationShard(-80)'')) = Inr (quoted ''Shard(-80)'' @ newline)
   \<and> 11 \<le> length ''DestinationShard(-80)''"
proof -
  have out: "MarshalJSON demo ex_destination =
     Inr (''{'' @ quoted ''OperatorType'' @ '':'' @ quoted ''Route'' @ newline
          @ '','' @ quoted ''TargetDestination'' @ '':'' @ quoted ''Shard(-80)'' @ newline @ ''}'')"
    using MarshalJSON_fields [of ex_destination demo]
    by (simp add: ex_destination_def head_fields_def inputs_fields_def demo_eval)
  have keys: "distinct (map fst (entries (Other ex_destination)))"
    by (simp add: ex_destination_def entries_def)
  have d: "TargetDestination ex_destination = Some (MkDestination ''DestinationShard(-80)'')"
    by (simp add: ex_destination_def)
  from TargetDestination_prefix_stripped [OF keys d out]
  obtain e where "11 \<le> length ''DestinationShard(-80)''"
    and "Encode demo (AString (drop 11 ''DestinationShard(-80)'')) = Inr e"
    by auto
  moreover have "Encode demo (AString (drop 11 ''DestinationShard(-80)'')) = Inr (quoted ''Shard(-80)'' @ newline)"
    by (simp add: demo_eval)
  ultimately show ?thesis using out by simp
qed

text \<open>
  C10. The serialiser slices the textual form of a present target destination from
  position 11. When the textual form is shorter, no output is returned: the call ends
  in the out-of-range panic of the slice expression as soon as the fields written
  before the destination have been encoded.
\<close>

theorem short_destination_panics:
  assumes "distinct (map fst (entries (Other pd)))"
    and "TargetDestination pd = Some d"
    and "length (String d) < 11"
  shows "slice_from (String d) 11 = Inl RuntimePanic
         \<and> (\<forall>out. MarshalJSON X pd \<noteq> Inr out)
         \<and> (\<forall>pre. write_fields X '''' ''{'' (fields_before_destination X pd) = Inr pre
                \<longrightarrow> MarshalJSON X pd = Inl RuntimePanic)"
  unfolding MarshalJSON_short_destination [OF assms(2) assms(3) assms(1), of X]
  using assms(3) by (simp add: slice_from_def and_then_def split: sum.splits)

text \<open>A destination whose textual form has five characters.\<close>

theorem short_destination_panics_witness:
  "length (String (MkDestination ''Short'')) < 11
   \<and> MarshalJSON demo ex_short_destination = Inl RuntimePanic"
proof -
  have keys: "distinct (map fst (entries (Other ex_short_destination)))"
    by (simp add: ex_short_destination_def entries_def)
  have d: "TargetDestination ex_short_destination = Some (MkDestination ''Short'')"
    by (simp add: ex_short_destination_def)
  have short: "length (String (MkDestination ''Short'')) < 11" by simp
  have pre: "write_fields demo '''' ''{'' (fields_before_destination demo ex_short_destination)
             = Inr (''{'' @ quoted ''OperatorType'' @ '':'' @ quoted ''Route'' @ newline)"
    by (simp add: ex_short_destination_def fields_before_destination_def demo_eval)
  from short_destination_panics [OF keys d short, of demo] pre short show ?thesis by simp
qed

subsection \<open>The claims about the builder\<close>






lemma entries_Some [simp]: "entries (Some kvs) = kvs"
  by (simp add: entries_def)

lemma set_InputName_sel [simp]:
  "InputName (set_InputName s pd) = s"
  "Other (set_InputName s pd) = Other pd"
  "OperatorType (set_InputName s pd) = OperatorType pd"
  "Variant (set_InputName s pd) = Variant pd"
  "Keyspace (set_InputName s pd) = Keyspace pd"
  "TargetDestination (set_InputName s pd) = TargetDestination pd"
  "TargetTabletType (set_InputName s pd) = TargetTabletType pd"
  "Inputs (set_InputName s pd) = Inputs pd"
  "Stats (set_InputName s pd) = Stats pd"
  by (simp_all add: set_InputName_def)

lemma set_Other_sel [simp]:
  "Other (set_Other m pd) = m"
  "InputName (set_Other m pd) = InputName pd"
  "OperatorType (set_Other m pd) = OperatorType pd"
  "Variant (set_Other m pd) = Variant pd"
  "Keyspace (set_Other m pd) = Keyspace pd"
  "TargetDestination (set_Other m pd) = TargetDestination pd"
  "TargetTabletType (set_Other m pd) = TargetTabletType pd"
  "Inputs (set_Other m pd) = Inputs pd"
  "Stats (set_Other m pd) = Stats pd"
  by (simp_all add: set_Other_def)


lemma set_Inputs_sel [simp]:
  "Inputs (set_Inputs ins pd) = ins"
  by (simp add: set_Inputs_def)

lemma Inputs_set_Stats [simp]:
  "Inputs (set_Stats st pd) = Inputs pd"
  by (simp add: set_Stats_def)





subsection \<open>The claims about the graph export\<close>

lemma graph_nodes_calls:
  "n < length (graph_nodes g) \<Longrightarrow>
     graph_nodes (foldl (\<lambda>g c. call_Node g n c) g cs) =
       (graph_nodes g)[n := (graph_nodes g ! n)\<lparr>node_calls := node_calls (graph_nodes g ! n) @ cs\<rparr>]"
proof (induction cs arbitrary: g)
  case Nil
  then show ?case by simp
next
  case (Cons c cs)
  have "n < length (graph_nodes (call_Node g n c))" using Cons.prems by (simp add: call_Node_def)
  from Cons.IH [OF this] show ?case using Cons.prems by (simp add: call_Node_def)
qed

lemma graph_nodes_entries:
  "n < length (graph_nodes g) \<Longrightarrow>
     graph_nodes (foldl (\<lambda>g (k, v). foldl (\<lambda>g c. call_Node g n c) g (f k v)) g kvs) =
       (graph_nodes g)[n := (graph_nodes g ! n)
          \<lparr>node_calls := node_calls (graph_nodes g ! n) @ concat (map (\<lambda>(k, v). f k v) kvs)\<rparr>]"
proof (induction kvs arbitrary: g)
  case Nil
  then show ?case by simp
next
  case (Cons kv kvs)
  obtain k v where kv: "kv = (k, v)" by (cases kv)
  define g1 where "g1 = foldl (\<lambda>g c. call_Node g n c) g (f k v)"
  have nodes1: "graph_nodes g1 =
      (graph_nodes g)[n := (graph_nodes g ! n)\<lparr>node_calls := node_calls (graph_nodes g ! n) @ f k v\<rparr>]"
    unfolding g1_def by (rule graph_nodes_calls [OF Cons.prems])
  then have "n < length (graph_nodes g1)" using Cons.prems by simp
  from Cons.IH [OF this] show ?case using Cons.prems by (simp add: kv g1_def [symmetric] nodes1)
qed

lemma graph_nodes_edges:
  "graph_nodes (foldl (\<lambda>g n. AddEdge g this n) g nodes) = graph_nodes g"
  by (induction nodes arbitrary: g) (simp_all add: AddEdge_def)

lemma addToGraph_node:
  assumes "addToGraph X pd g = Inr (this, g')"
  shows "this < length (graph_nodes g')
         \<and> node_name (graph_nodes g' ! this) =
             (if Variant pd = '''' then OperatorType pd else OperatorType pd @ '':'' @ Variant pd)
         \<and> node_calls (graph_nodes g' ! this) =
             concat (map (\<lambda>(k, v). scan_entry X k v) (entries (Other pd)))"
proof -
  from assms obtain nodes g1 where
    ins: "addToGraph_inputs X (elems (Inputs pd)) [] g = Inr (nodes, g1)"
    by (cases "addToGraph_inputs X (elems (Inputs pd)) [] g") (auto simp: addToGraph.simps)
  define name where
    "name = (if Variant pd = '''' then OperatorType pd else OperatorType pd @ '':'' @ Variant pd)"
  define g2 where "g2 = g1\<lparr>graph_nodes := graph_nodes g1 @ [\<lparr>node_name = name, node_calls = []\<rparr>]\<rparr>"
  define n where "n = length (graph_nodes g1)"
  define g3 where "g3 = foldl (\<lambda>g (k, v). foldl (\<lambda>g c. call_Node g n c) g (scan_entry X k v))
                     g2 (entries (Other pd))"
  have res: "this = n" "g' = foldl (\<lambda>g m. AddEdge g n m) g3 nodes"
    using assms
    by (auto simp: addToGraph.simps ins AddNode_def Let_def name_def g2_def n_def g3_def)
  have n2: "n < length (graph_nodes g2)" by (simp add: g2_def n_def)
  have "graph_nodes g' = graph_nodes g3" by (simp add: res(2) graph_nodes_edges)
  also have "\<dots> = (graph_nodes g2)[n := (graph_nodes g2 ! n)
          \<lparr>node_calls := node_calls (graph_nodes g2 ! n)
             @ concat (map (\<lambda>(k, v). scan_entry X k v) (entries (Other pd)))\<rparr>]"
    unfolding g3_def by (rule graph_nodes_entries [OF n2])
  finally show ?thesis using n2 by (simp add: res(1) g2_def n_def name_def)
qed

lemma addToGraph_returns:
  "\<exists>r. addToGraph X pd g = Inr r"
  "\<exists>r. addToGraph_inputs X ds ns g = Inr r"
proof (induction X pd g and X ds ns g rule: addToGraph_addToGraph_inputs.induct)
  case (1 X pd g)
  then obtain nodes g1 where "addToGraph_inputs X (elems (Inputs pd)) [] g = Inr (nodes, g1)"
    by auto
  then show ?case by (simp add: addToGraph.simps Let_def split: prod.split)
next
  case (2 X nodes g)
  then show ?case by simp
next
  case (3 X input rest nodes g)
  from 3(1) obtain n g1 where a: "addToGraph X input g = Inr (n, g1)" by auto
  from 3(2) [OF a] show ?case by (simp add: a)
qed

text \<open>
  C8 (as amended). Exporting a description always returns a node, and the calls made on
  that node are those of the entries of its extension map, entry by entry (in the order
  of the iteration, which Go leaves open): the entry \<open>Query\<close> is one tooltip with the
  value and no attribute, the entry \<open>FieldQuery\<close> is nothing, another entry whose value is
  a sequence of strings is one attribute with the key followed by one attribute per
  element, and any other entry is the single attribute \<open>key:value\<close>.
\<close>

theorem graph_extension_entries:
  "\<exists>this g'. addToGraph X pd g = Inr (this, g')
     \<and> this < length (graph_nodes g')
     \<and> node_calls (graph_nodes g' ! this) =
         concat (map (\<lambda>(k, v).
                   if k = ''Query'' then [AddTooltip (fmt_Sprint X v)]
                   else if k = ''FieldQuery'' then []
                   else (case v of
                           AStrings strs \<Rightarrow> AddAttribute k # map AddAttribute strs
                         | _ \<Rightarrow> [AddAttribute (k @ '':'' @ fmt_Sprint X v)]))
                 (entries (Other pd)))"
proof -
  obtain this g' where r: "addToGraph X pd g = Inr (this, g')"
    using addToGraph_returns(1) [of X pd g] by auto
  have "(\<lambda>(k, v). scan_entry X k v) =
        (\<lambda>(k, v). if k = ''Query'' then [AddTooltip (fmt_Sprint X v)]
                   else if k = ''FieldQuery'' then []
                   else (case v of
                           AStrings strs \<Rightarrow> AddAttribute k # map AddAttribute strs
                         | _ \<Rightarrow> [AddAttribute (k @ '':'' @ fmt_Sprint X v)]))"
    by (simp add: scan_entry_def fun_eq_iff)
  with addToGraph_node [OF r] r show ?thesis by simp
qed

text \<open>
  The example of the specification: \<open>Query: SELECT 1\<close> is a tooltip, \<open>FieldQuery\<close> is
  dropped, and \<open>Table: t\<close> is the attribute \<open>Table:t\<close>.
\<close>

theorem graph_extension_entries_witness:
  "addToGraph demo ex_graph_query graphviz_New =
     Inr (0, \<lparr>graph_nodes = [\<lparr>node_name = ''Route:Scatter'',
                               node_calls = [AddTooltip ''SELECT 1'', AddAttribute ''Table:t'']\<rparr>],
              graph_edges = []\<rparr>)
   \<and> (\<exists>this g'. addToGraph demo ex_graph_query graphviz_New = Inr (this, g')
         \<and> node_calls (graph_nodes g' ! this) = [AddTooltip ''SELECT 1'', AddAttribute ''Table:t''])"
proof -
  have ev: "addToGraph demo ex_graph_query graphviz_New =
     Inr (0, \<lparr>graph_nodes = [\<lparr>node_name = ''Route:Scatter'',
                               node_calls = [AddTooltip ''SELECT 1'', AddAttribute ''Table:t'']\<rparr>],
              graph_edges = []\<rparr>)"
    by (simp add: addToGraph.simps ex_graph_query_def graphviz_New_def elems_def entries_def
        AddNode_def call_Node_def scan_entry_def demo_sel demo_Sprint_def)
  from graph_extension_entries [of demo ex_graph_query graphviz_New]
  have "\<exists>this g'. addToGraph demo ex_graph_query graphviz_New = Inr (this, g')
         \<and> node_calls (graph_nodes g' ! this) = [AddTooltip ''SELECT 1'', AddAttribute ''Table:t'']"
    by (auto simp: ex_graph_query_def entries_def demo_sel demo_Sprint_def)
  with ev show ?thesis by simp
qed

text \<open>
  C8 as stated fails for a value that is a sequence of strings: the entry
  \<open>Cols: [a, b]\<close> makes three attributes, the key and the two elements, not one per
  element.
\<close>

theorem graph_strings_counterexample:
  "addToGraph demo ex_graph_columns graphviz_New =
     Inr (0, \<lparr>graph_nodes = [\<lparr>node_name = ''Route'',
                               node_calls = [AddAttribute ''Cols'', AddAttribute ''a'',
                                             AddAttribute ''b'']\<rparr>],
              graph_edges = []\<rparr>)
   \<and> [AddAttribute ''Cols'', AddAttribute ''a'', AddAttribute ''b'']
       \<noteq> map AddAttribute [''a'', ''b'']"
  by (simp add: addToGraph.simps ex_graph_columns_def graphviz_New_def elems_def entries_def
      AddNode_def call_Node_def scan_entry_def)

end
